theory Spec2Isabelle
  imports Complex_Main "HOL-Library.Word" "HOL-Library.Finite_Map"
begin

unbundle bit_operations_syntax

chapter \<open>Definitions: the embedded code\<close>

section \<open>SOMAS tensor (\<^verbatim>\<open>backend/common/somas/somas_tensor.cc\<close>)\<close>

text \<open>
  \<^verbatim>\<open>size_t\<close> is a 64-bit unsigned integer: addition and multiplication wrap around,
  division is the unsigned integer division.
\<close>

type_synonym size_t = "64 word"

datatype LifeLongType = kLifeLongNone | kLifeLongGraphAll | kLifeLongGraphStart | kLifeLongGraphEnd

datatype TensorType = kCommon | kWorkspace | kOutputOnly | kSummaryInput | kUnion | kControl | kUnknown

record SomasTensor =
  lifelong_value :: LifeLongType
  between_streams :: bool
  contiguous :: bool
  type_field :: TensorType
  offset :: size_t
  num_constraints :: size_t
  ref_overlap :: bool
  id_field :: size_t
  source_node_id :: size_t
  source_stream_id :: size_t
  original_size :: size_t
  aligned_size :: size_t

definition alignment :: size_t where
  "alignment = 512"

definition alignment_complement :: size_t where
  "alignment_complement = 31"

text \<open>The constructor \<^verbatim>\<open>SomasTensor::SomasTensor\<close>; the solver descriptor it also
  allocates is built from \<open>id\<close>, \<open>aligned_size\<close> and \<open>offset\<close> and is not modelled.\<close>

definition SomasTensor_ctor ::
  "size_t \<Rightarrow> size_t \<Rightarrow> size_t \<Rightarrow> size_t \<Rightarrow> LifeLongType \<Rightarrow> SomasTensor" where
  "SomasTensor_ctor ident node_id stream_id real_size lifelong =
     \<lparr> lifelong_value = lifelong,
       between_streams = False,
       contiguous = False,
       type_field = kUnknown,
       offset = 0,
       num_constraints = 0,
       ref_overlap = False,
       id_field = ident,
       source_node_id = node_id,
       source_stream_id = stream_id,
       original_size = real_size,
       aligned_size =
         (if real_size > 0
          then ((real_size + alignment + alignment_complement) div alignment) * alignment
          else 0) \<rparr>"

text \<open>The spec's gloss of the formula, following its words:
  \<open>ceil((size+31)/512)*512\<close>, over the unbounded naturals.\<close>

definition spec_ceil_aligned :: "nat \<Rightarrow> nat" where
  "spec_ceil_aligned n = nat \<lceil>(of_nat n + 31) / (512 :: real)\<rceil> * 512"

section \<open>RunnerConfig (\<^verbatim>\<open>model_parallel_runner.cc\<close>)\<close>

definition kMaxSectionNum :: nat where
  "kMaxSectionNum = 100"

definition kMaxConfigNumPerSection :: nat where
  "kMaxConfigNumPerSection = 1000"

text \<open>
  \<^verbatim>\<open>RunnerConfig::Data\<close>: \<open>config_info\<close> is a
  \<^verbatim>\<open>std::map<std::string, std::map<std::string, std::string>>\<close>, a finite map whose
  \<^verbatim>\<open>size()\<close> is its number of keys. The execution context is not modelled.
\<close>

type_synonym config_section = "(string, string) fmap"

record RunnerConfig_Data =
  workers_num :: int
  config_info :: "(string, config_section) fmap"

definition map_size :: "('k, 'v) fmap \<Rightarrow> nat" where
  "map_size m = fcard (fmdom m)"

definition RunnerConfig_ctor :: RunnerConfig_Data where
  "RunnerConfig_ctor = \<lparr> workers_num = 0, config_info = fmempty \<rparr>"

text \<open>\<^verbatim>\<open>RunnerConfig::SetConfigInfo\<close> returns \<^verbatim>\<open>void\<close>: the result is the new state
  only. \<^verbatim>\<open>CharToString\<close> and \<^verbatim>\<open>MapVectorCharToString\<close> convert between
  \<^verbatim>\<open>std::vector<char>\<close> and \<^verbatim>\<open>std::string\<close> and are the identity on \<open>string\<close>.\<close>

definition SetConfigInfo :: "string \<Rightarrow> config_section \<Rightarrow> RunnerConfig_Data \<Rightarrow> RunnerConfig_Data" where
  "SetConfigInfo section_name config d =
     (if map_size (config_info d) > kMaxSectionNum then d
      else if map_size config > kMaxConfigNumPerSection then d
      else d\<lparr> config_info := fmupd section_name config (config_info d) \<rparr>)"

definition GetConfigInfo :: "RunnerConfig_Data \<Rightarrow> (string, config_section) fmap" where
  "GetConfigInfo d = config_info d"

text \<open>A caller that registers the sections of a list one after the other.\<close>

definition set_sections :: "string list \<Rightarrow> config_section \<Rightarrow> RunnerConfig_Data \<Rightarrow> RunnerConfig_Data" where
  "set_sections secs config d = fold (\<lambda>s. SetConfigInfo s config) secs d"

text \<open>\<open>section_name n\<close>: the string of \<open>n + 1\<close> letters \<open>s\<close>; distinct numbers
  give distinct names.\<close>

definition section_name :: "nat \<Rightarrow> string" where
  "section_name n = replicate (Suc n) CHR ''s''"

section \<open>Floating-point values (\<^verbatim>\<open>float\<close>, \<^verbatim>\<open>double\<close>)\<close>

text \<open>
  The kernels compute in IEEE-754 binary32 and binary64. A value is a NaN, an infinity or a
  finite number; a finite result of an operation is the exact result rounded to the nearest
  representable number, ties to the even significand, with gradual underflow and with
  overflow to an infinity. The sign of a zero is not modelled: \<open>Fin 0\<close> stands for both
  zeros, and a division by it takes the zero as positive.
\<close>

datatype fval = NaN | NInf | Fin real | PInf

record fformat =
  precision :: nat
  emin :: int
  emax :: int

definition binary32 :: fformat where
  "binary32 = \<lparr> precision = 24, emin = -126, emax = 127 \<rparr>"

definition binary64 :: fformat where
  "binary64 = \<lparr> precision = 53, emin = -1022, emax = 1023 \<rparr>"

text \<open>\<open>bit_length n\<close> is the number of binary digits of \<open>n\<close>; \<open>ilog2 x\<close> is
  \<open>floor (log2 x)\<close> for \<open>x > 0\<close>.\<close>

fun bit_length :: "nat \<Rightarrow> nat" where
  "bit_length n = (if n = 0 then 0 else Suc (bit_length (n div 2)))"

declare bit_length.simps [simp del]

definition ilog2 :: "real \<Rightarrow> int" where
  "ilog2 x = (if 1 \<le> x then int (bit_length (nat \<lfloor>x\<rfloor>)) - 1
              else - int (bit_length (nat (\<lceil>1 / x\<rceil> - 1))))"

definition pow2 :: "int \<Rightarrow> real" where
  "pow2 e = (if 0 \<le> e then 2 ^ nat e else 1 / 2 ^ nat (- e))"

definition round_even :: "real \<Rightarrow> int" where
  "round_even t = (let f = \<lfloor>t\<rfloor>; d = t - of_int f
                   in if d < 1 / 2 then f else if 1 / 2 < d then f + 1
                      else if even f then f else f + 1)"

text \<open>The spacing of the representable numbers around \<open>x\<close>, and the largest finite
  number of a format.\<close>

definition quantum :: "fformat \<Rightarrow> real \<Rightarrow> real" where
  "quantum fmt x = pow2 (max (ilog2 \<bar>x\<bar>) (emin fmt) - (int (precision fmt) - 1))"

definition max_finite :: "fformat \<Rightarrow> real" where
  "max_finite fmt = (2 - pow2 (1 - int (precision fmt))) * pow2 (emax fmt)"

definition round_to_format :: "fformat \<Rightarrow> real \<Rightarrow> fval" where
  "round_to_format fmt x =
     (if x = 0 then Fin 0
      else let q = quantum fmt x; r = of_int (round_even (x / q)) * q
           in if max_finite fmt < \<bar>r\<bar> then (if 0 < r then PInf else NInf) else Fin r)"

fun fneg :: "fval \<Rightarrow> fval" where
  "fneg NaN = NaN"
| "fneg NInf = PInf"
| "fneg PInf = NInf"
| "fneg (Fin x) = Fin (- x)"

fun fabs :: "fval \<Rightarrow> fval" where
  "fabs NaN = NaN"
| "fabs NInf = PInf"
| "fabs PInf = PInf"
| "fabs (Fin x) = Fin \<bar>x\<bar>"

fun fadd :: "fformat \<Rightarrow> fval \<Rightarrow> fval \<Rightarrow> fval" where
  "fadd fmt NaN b = NaN"
| "fadd fmt a NaN = NaN"
| "fadd fmt PInf NInf = NaN"
| "fadd fmt NInf PInf = NaN"
| "fadd fmt PInf b = PInf"
| "fadd fmt a PInf = PInf"
| "fadd fmt NInf b = NInf"
| "fadd fmt a NInf = NInf"
| "fadd fmt (Fin x) (Fin y) = round_to_format fmt (x + y)"

definition fsub :: "fformat \<Rightarrow> fval \<Rightarrow> fval \<Rightarrow> fval" where
  "fsub fmt a b = fadd fmt a (fneg b)"

text \<open>The sign of a product or quotient with an infinite operand.\<close>

definition signed_inf :: "bool \<Rightarrow> fval" where
  "signed_inf positive = (if positive then PInf else NInf)"

fun fmul :: "fformat \<Rightarrow> fval \<Rightarrow> fval \<Rightarrow> fval" where
  "fmul fmt NaN b = NaN"
| "fmul fmt a NaN = NaN"
| "fmul fmt (Fin x) (Fin y) = round_to_format fmt (x * y)"
| "fmul fmt (Fin x) PInf = (if x = 0 then NaN else signed_inf (0 < x))"
| "fmul fmt (Fin x) NInf = (if x = 0 then NaN else signed_inf (x < 0))"
| "fmul fmt PInf (Fin y) = (if y = 0 then NaN else signed_inf (0 < y))"
| "fmul fmt NInf (Fin y) = (if y = 0 then NaN else signed_inf (y < 0))"
| "fmul fmt PInf PInf = PInf"
| "fmul fmt NInf NInf = PInf"
| "fmul fmt PInf NInf = NInf"
| "fmul fmt NInf PInf = NInf"

fun fdiv :: "fformat \<Rightarrow> fval \<Rightarrow> fval \<Rightarrow> fval" where
  "fdiv fmt NaN b = NaN"
| "fdiv fmt a NaN = NaN"
| "fdiv fmt (Fin x) (Fin y) =
     (if y = 0 then (if x = 0 then NaN else signed_inf (0 < x))
      else round_to_format fmt (x / y))"
| "fdiv fmt (Fin x) PInf = Fin 0"
| "fdiv fmt (Fin x) NInf = Fin 0"
| "fdiv fmt PInf (Fin y) = signed_inf (0 \<le> y)"
| "fdiv fmt NInf (Fin y) = signed_inf (y < 0)"
| "fdiv fmt PInf b = NaN"
| "fdiv fmt NInf b = NaN"

fun ffloor :: "fval \<Rightarrow> fval" where
  "ffloor (Fin x) = Fin (of_int \<lfloor>x\<rfloor>)"
| "ffloor a = a"

text \<open>Comparisons: every comparison with a NaN is false.\<close>

fun flt :: "fval \<Rightarrow> fval \<Rightarrow> bool" where
  "flt NaN b = False"
| "flt a NaN = False"
| "flt (Fin x) (Fin y) = (x < y)"
| "flt PInf b = False"
| "flt a NInf = False"
| "flt NInf b = True"
| "flt a PInf = True"

fun feq :: "fval \<Rightarrow> fval \<Rightarrow> bool" where
  "feq NaN b = False"
| "feq a NaN = False"
| "feq a b = (a = b)"

definition fgt :: "fval \<Rightarrow> fval \<Rightarrow> bool" where
  "fgt a b = flt b a"

text \<open>\<^verbatim>\<open>std::isnan\<close>.\<close>

definition isnan :: "fval \<Rightarrow> bool" where
  "isnan a = (a = NaN)"

section \<open>Arithmetic CPU kernels (\<^verbatim>\<open>arithmetic_cpu_kernel.cc\<close>)\<close>

subsection \<open>Memory, loops and the element type\<close>

text \<open>
  The kernels receive raw pointers \<^verbatim>\<open>T *\<close> into device memory. Memory is a store from
  addresses (counted in elements of \<^verbatim>\<open>T\<close>) to values, a pointer is an address, and
  \<^verbatim>\<open>p[i]\<close> is the cell \<open>p + i\<close>: two pointers may alias.
\<close>

type_synonym 'a mem = "nat \<Rightarrow> 'a"

text \<open>\<^verbatim>\<open>for (size_t i = start; i < stop; i++) body\<close>.\<close>

definition for_loop :: "nat \<Rightarrow> nat \<Rightarrow> (nat \<Rightarrow> 's \<Rightarrow> 's) \<Rightarrow> 's \<Rightarrow> 's" where
  "for_loop start stop body s = fold body [start..<stop] s"

text \<open>
  \<^verbatim>\<open>ParallelLaunchAutoSearch(task, count, ...)\<close> runs \<^verbatim>\<open>task(start, end)\<close> on chunks that
  partition \<open>[0, count)\<close>; every task of this file handles the positions of its chunk one by
  one, so the chunks are run here as the single chunk \<open>[0, count)\<close>.
\<close>

definition ParallelLaunchAutoSearch :: "(nat \<Rightarrow> nat \<Rightarrow> 's \<Rightarrow> 's) \<Rightarrow> nat \<Rightarrow> 's \<Rightarrow> 's" where
  "ParallelLaunchAutoSearch task count s = task 0 count s"

text \<open>
  \<^verbatim>\<open>BroadcastIterator\<close> (declared outside these sources) maps an output position to the
  positions of the two broadcast inputs: after \<^verbatim>\<open>SetPos(start)\<close> and \<open>i - start\<close> calls of
  \<^verbatim>\<open>GenNextPos()\<close>, \<^verbatim>\<open>GetInputPosA()\<close> and \<^verbatim>\<open>GetInputPosB()\<close> are the input positions of
  output position \<open>i\<close>. It is a parameter of the model.
\<close>

record BroadcastIterator =
  GetInputPosA :: "nat \<Rightarrow> nat"
  GetInputPosB :: "nat \<Rightarrow> nat"

text \<open>
  The nnacl routines of the \<^verbatim>\<open>float\<close> fast paths are not part of these sources; they are
  parameters. Each takes the memory, its pointer arguments and the element count.
\<close>

record 'a nnacl =
  ElementMul :: "'a mem \<Rightarrow> nat \<Rightarrow> nat \<Rightarrow> nat \<Rightarrow> nat \<Rightarrow> 'a mem"
  ElementOptMul :: "bool \<Rightarrow> 'a mem \<Rightarrow> nat \<Rightarrow> nat \<Rightarrow> nat \<Rightarrow> nat \<Rightarrow> 'a mem"
  AssignSubOpt :: "'a mem \<Rightarrow> nat \<Rightarrow> nat \<Rightarrow> nat \<Rightarrow> 'a mem"

text \<open>
  The template parameter \<^verbatim>\<open>T\<close> is passed as a dictionary of its operations.
  \<open>float_fast\<close> is \<open>Some\<close> exactly for \<^verbatim>\<open>T = float\<close> (\<^verbatim>\<open>std::is_same_v<T, float>\<close>) and
  \<open>bool_and\<close> is \<open>Some\<close> exactly for \<^verbatim>\<open>T = bool\<close>, where it is
  \<^verbatim>\<open>static_cast<T>(a && b)\<close>. \<open>t_quiet_NaN\<close> is \<^verbatim>\<open>std::numeric_limits<T>::quiet_NaN()\<close>.
  The complex types extend the dictionary by the quotient \<^verbatim>\<open>a / b\<close>, which is defined for
  every pair. The ordered ("real data") types extend it by the comparison, the rest of
  \<^verbatim>\<open>std::numeric_limits<T>\<close>, the conversions from and to \<^verbatim>\<open>double\<close>, and by
  \<open>t_div_total\<close>: \<open>Some\<close> of the quotient \<^verbatim>\<open>a / b\<close> for a type where every quotient by a
  divisor other than zero is defined, and \<open>None\<close> for a type where one is not (at the
  integer types \<^verbatim>\<open>INT_MIN / -1\<close> is undefined, and a trap on x86-64).
\<close>

record 'a T_ops =
  float_fast :: "'a nnacl option"
  bool_and :: "('a \<Rightarrow> 'a \<Rightarrow> 'a) option"
  t_zero :: 'a
  t_eq :: "'a \<Rightarrow> 'a \<Rightarrow> bool"
  t_add :: "'a \<Rightarrow> 'a \<Rightarrow> 'a"
  t_sub :: "'a \<Rightarrow> 'a \<Rightarrow> 'a"
  t_mul :: "'a \<Rightarrow> 'a \<Rightarrow> 'a"
  t_quiet_NaN :: 'a

record 'a T_complex_ops = "'a T_ops" +
  t_div :: "'a \<Rightarrow> 'a \<Rightarrow> 'a"

record 'a T_real_ops = "'a T_ops" +
  t_div_total :: "('a \<Rightarrow> 'a \<Rightarrow> 'a) option"
  t_gt :: "'a \<Rightarrow> 'a \<Rightarrow> bool"
  t_neg :: "'a \<Rightarrow> 'a"
  t_has_infinity :: bool
  t_infinity :: 'a
  t_max :: 'a
  t_min :: 'a
  t_to_double :: "'a \<Rightarrow> fval"
  t_of_double :: "fval \<Rightarrow> 'a"

subsection \<open>The kernel object\<close>

record ArithmeticCpuTypeFunc =
  kernel_name :: string
  input_shape1 :: "int list"
  input_shape2 :: "int list"
  output_shape :: "int list"
  output_size :: nat
  in_elements_num0 :: int
  in_elements_num1 :: int
  base_iter :: BroadcastIterator

definition kAdd :: string where "kAdd = ''Add''"
definition kAddV2 :: string where "kAddV2 = ''AddV2''"
definition kSub :: string where "kSub = ''Sub''"
definition kMul :: string where "kMul = ''Mul''"
definition kRealDiv :: string where "kRealDiv = ''RealDiv''"
definition kAssignAdd :: string where "kAssignAdd = ''AssignAdd''"
definition kAssignSub :: string where "kAssignSub = ''AssignSub''"
definition kDiv :: string where "kDiv = ''Div''"
definition kDivNoNan :: string where "kDivNoNan = ''DivNoNan''"
definition kPow :: string where "kPow = ''Pow''"
definition kFloorDiv :: string where "kFloorDiv = ''FloorDiv''"
definition kMod :: string where "kMod = ''Mod''"
definition kFloorMod :: string where "kFloorMod = ''FloorMod''"
definition kSquaredDifference :: string where "kSquaredDifference = ''SquaredDifference''"
definition kXlogy :: string where "kXlogy = ''Xlogy''"
definition kAtan2 :: string where "kAtan2 = ''Atan2''"

subsection \<open>Division\<close>

text \<open>The loop body shared, as the same inline text, by \<^verbatim>\<open>ElementRealDiv\<close>, the broadcast
  path of \<^verbatim>\<open>RealDiv\<close> and \<^verbatim>\<open>Div\<close>, for a divisor equal to zero. The kernels of the real
  table that divide take the quotient of \<^verbatim>\<open>T\<close> as the argument \<open>quot\<close>: they are embedded for
  the types where \<open>t_div_total\<close> gives one.\<close>

definition ElementRealDiv ::
  "('a, 'b) T_real_ops_scheme \<Rightarrow> ('a \<Rightarrow> 'a \<Rightarrow> 'a) \<Rightarrow> nat \<Rightarrow> nat \<Rightarrow> nat \<Rightarrow> nat \<Rightarrow> nat \<Rightarrow> nat \<Rightarrow> 'a mem \<Rightarrow> 'a mem" where
  "ElementRealDiv T quot input1 input2 out count delta_1 delta_2 =
     for_loop 0 count (\<lambda>i m.
       let dividend = m (input1 + i * delta_1);
           divisor = m (input2 + i * delta_2);
           zero = t_zero T
       in if t_eq T divisor zero then
            (if t_eq T dividend zero then m(out + i := t_quiet_NaN T)
             else if t_has_infinity T then
               m(out + i := (if t_gt T dividend zero then t_infinity T else t_neg T (t_infinity T)))
             else
               m(out + i := (if t_gt T dividend zero then t_max T else t_min T)))
          else m(out + i := quot dividend divisor))"

definition ElementRealDivComplex ::
  "('a, 'b) T_complex_ops_scheme \<Rightarrow> nat \<Rightarrow> nat \<Rightarrow> nat \<Rightarrow> nat \<Rightarrow> nat \<Rightarrow> nat \<Rightarrow> 'a mem \<Rightarrow> 'a mem" where
  "ElementRealDivComplex T input1 input2 out count delta_1 delta_2 =
     for_loop 0 count (\<lambda>i m.
       let dividend = m (input1 + i * delta_1);
           divisor = m (input2 + i * delta_2);
           zero = t_zero T
       in if t_eq T divisor zero then m(out + i := t_quiet_NaN T)
          else m(out + i := t_div T dividend divisor))"

definition RealDiv ::
  "('a, 'b) T_real_ops_scheme \<Rightarrow> ('a \<Rightarrow> 'a \<Rightarrow> 'a) \<Rightarrow> ArithmeticCpuTypeFunc \<Rightarrow> nat \<Rightarrow> nat \<Rightarrow> nat \<Rightarrow> 'a mem \<Rightarrow> 'a mem" where
  "RealDiv T quot this input1 input2 out =
     (if input_shape1 this = input_shape2 this then
        ParallelLaunchAutoSearch (\<lambda>start stop.
          ElementRealDiv T quot (input1 + start) (input2 + start) (out + start) (stop - start) 1 1)
          (output_size this)
      else if in_elements_num0 this = 1 then
        ParallelLaunchAutoSearch (\<lambda>start stop.
          ElementRealDiv T quot input1 (input2 + start) (out + start) (stop - start) 0 1)
          (output_size this)
      else if in_elements_num1 this = 1 then
        ParallelLaunchAutoSearch (\<lambda>start stop.
          ElementRealDiv T quot (input1 + start) input2 (out + start) (stop - start) 1 0)
          (output_size this)
      else
        ParallelLaunchAutoSearch (\<lambda>start stop. for_loop start stop (\<lambda>i m.
          let dividend = m (input1 + GetInputPosA (base_iter this) i);
              divisor = m (input2 + GetInputPosB (base_iter this) i);
              zero = t_zero T
          in if t_eq T divisor zero then
               (if t_eq T dividend zero then m(out + i := t_quiet_NaN T)
                else if t_has_infinity T then
                  m(out + i := (if t_gt T dividend zero then t_infinity T else t_neg T (t_infinity T)))
                else
                  m(out + i := (if t_gt T dividend zero then t_max T else t_min T)))
             else m(out + i := quot dividend divisor)))
          (output_size this))"

definition RealDivComplex ::
  "('a, 'b) T_complex_ops_scheme \<Rightarrow> ArithmeticCpuTypeFunc \<Rightarrow> nat \<Rightarrow> nat \<Rightarrow> nat \<Rightarrow> 'a mem \<Rightarrow> 'a mem" where
  "RealDivComplex T this input1 input2 out =
     (if input_shape1 this = input_shape2 this then
        ParallelLaunchAutoSearch (\<lambda>start stop.
          ElementRealDivComplex T (input1 + start) (input2 + start) (out + start) (stop - start) 1 1)
          (output_size this)
      else if in_elements_num0 this = 1 then
        ParallelLaunchAutoSearch (\<lambda>start stop.
          ElementRealDivComplex T input1 (input2 + start) (out + start) (stop - start) 0 1)
          (output_size this)
      else if in_elements_num1 this = 1 then
        ParallelLaunchAutoSearch (\<lambda>start stop.
          ElementRealDivComplex T (input1 + start) input2 (out + start) (stop - start) 1 0)
          (output_size this)
      else
        ParallelLaunchAutoSearch (\<lambda>start stop. for_loop start stop (\<lambda>i m.
          let dividend = m (input1 + GetInputPosA (base_iter this) i);
              divisor = m (input2 + GetInputPosB (base_iter this) i);
              zero = t_zero T
          in if t_eq T divisor zero then m(out + i := t_quiet_NaN T)
             else m(out + i := t_div T dividend divisor)))
          (output_size this))"

definition Div ::
  "('a, 'b) T_real_ops_scheme \<Rightarrow> ('a \<Rightarrow> 'a \<Rightarrow> 'a) \<Rightarrow> ArithmeticCpuTypeFunc \<Rightarrow> nat \<Rightarrow> nat \<Rightarrow> nat \<Rightarrow> 'a mem \<Rightarrow> 'a mem" where
  "Div T quot this input1 input2 out =
     ParallelLaunchAutoSearch (\<lambda>start stop. for_loop start stop (\<lambda>i m.
       let dividend = m (input1 + GetInputPosA (base_iter this) i);
           divisor = m (input2 + GetInputPosB (base_iter this) i);
           zero = t_zero T
       in if t_eq T divisor zero then
            (if t_eq T dividend zero then m(out + i := t_quiet_NaN T)
             else if t_has_infinity T then
               m(out + i := (if t_gt T dividend zero then t_infinity T else t_neg T (t_infinity T)))
             else
               m(out + i := (if t_gt T dividend zero then t_max T else t_min T)))
          else m(out + i := quot dividend divisor)))
       (output_size this)"

text \<open>In \<^verbatim>\<open>DivComplex\<close> the branch for a zero divisor assigns only when the dividend is
  zero as well; otherwise it reaches \<^verbatim>\<open>continue\<close> without an assignment.\<close>

definition DivComplex ::
  "('a, 'b) T_complex_ops_scheme \<Rightarrow> ArithmeticCpuTypeFunc \<Rightarrow> nat \<Rightarrow> nat \<Rightarrow> nat \<Rightarrow> 'a mem \<Rightarrow> 'a mem" where
  "DivComplex T this input1 input2 out =
     ParallelLaunchAutoSearch (\<lambda>start stop. for_loop start stop (\<lambda>i m.
       let dividend = m (input1 + GetInputPosA (base_iter this) i);
           divisor = m (input2 + GetInputPosB (base_iter this) i);
           zero = t_zero T
       in if t_eq T divisor zero then
            (if t_eq T dividend zero then m(out + i := t_quiet_NaN T)
             else m)
          else m(out + i := t_div T dividend divisor)))
       (output_size this)"

definition DivNoNan ::
  "('a, 'b) T_ops_scheme \<Rightarrow> ('a \<Rightarrow> 'a \<Rightarrow> 'a) \<Rightarrow> ArithmeticCpuTypeFunc \<Rightarrow> nat \<Rightarrow> nat \<Rightarrow> nat \<Rightarrow> 'a mem \<Rightarrow> 'a mem" where
  "DivNoNan T quot this input1 input2 out =
     ParallelLaunchAutoSearch (\<lambda>start stop. for_loop start stop (\<lambda>i m.
       let dividend = m (input1 + GetInputPosA (base_iter this) i);
           divisor = m (input2 + GetInputPosB (base_iter this) i);
           zero = t_zero T
       in if t_eq T divisor zero then m(out + i := zero)
          else m(out + i := quot dividend divisor)))
       (output_size this)"

definition FloorDiv ::
  "('a, 'b) T_real_ops_scheme \<Rightarrow> ArithmeticCpuTypeFunc \<Rightarrow> nat \<Rightarrow> nat \<Rightarrow> nat \<Rightarrow> 'a mem \<Rightarrow> 'a mem" where
  "FloorDiv T this input1 input2 out =
     ParallelLaunchAutoSearch (\<lambda>start stop. for_loop start stop (\<lambda>i m.
       let dividend = m (input1 + GetInputPosA (base_iter this) i);
           divisor = m (input2 + GetInputPosB (base_iter this) i);
           zero = t_zero T
       in if t_eq T divisor zero then
            (if t_eq T dividend zero then m(out + i := t_quiet_NaN T)
             else if t_has_infinity T then
               m(out + i := (if t_gt T dividend zero then t_infinity T else t_neg T (t_infinity T)))
             else
               m(out + i := (if t_gt T dividend zero then t_max T else t_min T)))
          else m(out + i :=
                 t_of_double T (ffloor (fdiv binary64 (t_to_double T dividend) (t_to_double T divisor))))))
       (output_size this)"

subsection \<open>FloorMod\<close>

text \<open>The literals \<^verbatim>\<open>1e-9\<close> and \<^verbatim>\<open>0.0\<close> are the nearest doubles; every operation on
  \<^verbatim>\<open>double\<close> rounds to binary64.\<close>

definition FloorMod_value :: "fval \<Rightarrow> fval \<Rightarrow> fval" where
  "FloorMod_value x y =
     (let res = fsub binary64 x (fmul binary64 (ffloor (fdiv binary64 x y)) y)
      in if fgt (fabs res) (round_to_format binary64 (1 / 10 ^ 9))
            \<and> (flt res (Fin 0) \<noteq> flt y (Fin 0))
         then fadd binary64 res y else res)"

definition FloorMod ::
  "('a, 'b) T_real_ops_scheme \<Rightarrow> ArithmeticCpuTypeFunc \<Rightarrow> nat \<Rightarrow> nat \<Rightarrow> nat \<Rightarrow> 'a mem \<Rightarrow> 'a mem" where
  "FloorMod T this input1 input2 out =
     ParallelLaunchAutoSearch (\<lambda>start stop. for_loop start stop (\<lambda>i m.
       let x = t_to_double T (m (input1 + GetInputPosA (base_iter this) i));
           y = t_to_double T (m (input2 + GetInputPosB (base_iter this) i))
       in m(out + i := t_of_double T (FloorMod_value x y))))
       (output_size this)"

subsection \<open>Mul, AssignAdd, AssignSub\<close>

definition Mul ::
  "('a, 'b) T_ops_scheme \<Rightarrow> ArithmeticCpuTypeFunc \<Rightarrow> nat \<Rightarrow> nat \<Rightarrow> nat \<Rightarrow> 'a mem \<Rightarrow> 'a mem" where
  "Mul T this input1 input2 out =
     (case (if input_shape1 this = input_shape2 this
               \<or> in_elements_num0 this = 1 \<or> in_elements_num1 this = 1
            then float_fast T else None) of
        Some nn \<Rightarrow>
          if input_shape1 this = input_shape2 this then
            ParallelLaunchAutoSearch (\<lambda>start stop m.
              ElementMul nn m (input1 + start) (input2 + start) (out + start) (stop - start))
              (output_size this)
          else
            ParallelLaunchAutoSearch (\<lambda>start stop m.
              if in_elements_num0 this = 1
              then ElementOptMul nn True m input1 (input2 + start) (out + start) (stop - start)
              else ElementOptMul nn False m (input1 + start) input2 (out + start) (stop - start))
              (output_size this)
      | None \<Rightarrow>
          ParallelLaunchAutoSearch (\<lambda>start stop. for_loop start stop (\<lambda>i m.
            case bool_and T of
              Some conj_op \<Rightarrow>
                m(out + i := conj_op (m (input1 + GetInputPosA (base_iter this) i))
                                     (m (input2 + GetInputPosB (base_iter this) i)))
            | None \<Rightarrow>
                m(out + i := t_mul T (m (input1 + GetInputPosA (base_iter this) i))
                                     (m (input2 + GetInputPosB (base_iter this) i)))))
            (output_size this))"

definition AssignAdd ::
  "('a, 'b) T_ops_scheme \<Rightarrow> ArithmeticCpuTypeFunc \<Rightarrow> nat \<Rightarrow> nat \<Rightarrow> nat \<Rightarrow> 'a mem \<Rightarrow> 'a mem" where
  "AssignAdd T this input1 input2 out =
     ParallelLaunchAutoSearch (\<lambda>start stop. for_loop start stop (\<lambda>i m.
       let m1 = m(out + i := t_add T (m (input1 + i)) (m (input2 + i)))
       in m1(input1 + i := m1 (out + i))))
       (output_size this)"

definition AssignSub ::
  "('a, 'b) T_ops_scheme \<Rightarrow> ArithmeticCpuTypeFunc \<Rightarrow> nat \<Rightarrow> nat \<Rightarrow> nat \<Rightarrow> 'a mem \<Rightarrow> 'a mem" where
  "AssignSub T this input1 input2 out =
     (case float_fast T of
        Some nn \<Rightarrow>
          ParallelLaunchAutoSearch (\<lambda>start stop m.
            AssignSubOpt nn m (input1 + start) (input2 + start) (stop - start))
            (output_size this)
      | None \<Rightarrow>
          ParallelLaunchAutoSearch (\<lambda>start stop. for_loop start stop (\<lambda>i m.
            m(input1 + i := t_sub T (m (input1 + i)) (m (input2 + i)))))
            (output_size this))"

subsection \<open>Dispatch\<close>

text \<open>
  \<^verbatim>\<open>InitComputeFunc\<close> looks the kernel name up in one of two tables, for real and for
  complex \<^verbatim>\<open>T\<close>. \<open>Func f\<close> is a member function embedded here, \<open>NotEmbedded\<close> an entry of
  the table whose member function, or its instance at \<^verbatim>\<open>T\<close>, is outside this development, \<open>Unsupported\<close> the
  \<^verbatim>\<open>MS_LOG(EXCEPTION)\<close> for a name that is not in the table, and \<open>NotSet\<close> the
  \<^verbatim>\<open>nullptr\<close> that \<^verbatim>\<open>compute_func_\<close> keeps for \<^verbatim>\<open>AssignAdd\<close> and \<^verbatim>\<open>AssignSub\<close>.
\<close>

datatype 'f dispatch = Func 'f | NotEmbedded | Unsupported | NotSet

type_synonym 'a TypeComputeFunc = "ArithmeticCpuTypeFunc \<Rightarrow> nat \<Rightarrow> nat \<Rightarrow> nat \<Rightarrow> 'a mem \<Rightarrow> 'a mem"

definition InitComputeFunc_real :: "('a, 'b) T_real_ops_scheme \<Rightarrow> string \<Rightarrow> 'a TypeComputeFunc dispatch" where
  "InitComputeFunc_real T name =
     (if name = kAssignAdd \<or> name = kAssignSub then NotSet
      else if name = kAdd then NotEmbedded
      else if name = kAddV2 then NotEmbedded
      else if name = kSub then NotEmbedded
      else if name = kMul then Func (Mul T)
      else if name = kDiv then (case t_div_total T of Some quot \<Rightarrow> Func (Div T quot) | None \<Rightarrow> NotEmbedded)
      else if name = kDivNoNan
           then (case t_div_total T of Some quot \<Rightarrow> Func (DivNoNan T quot) | None \<Rightarrow> NotEmbedded)
      else if name = kMod then NotEmbedded
      else if name = kFloorMod then Func (FloorMod T)
      else if name = kPow then NotEmbedded
      else if name = kFloorDiv then Func (FloorDiv T)
      else if name = kAtan2 then NotEmbedded
      else if name = kRealDiv
           then (case t_div_total T of Some quot \<Rightarrow> Func (RealDiv T quot) | None \<Rightarrow> NotEmbedded)
      else if name = kSquaredDifference then NotEmbedded
      else if name = kXlogy then NotEmbedded
      else Unsupported)"

definition InitComputeFunc_complex :: "('a, 'b) T_complex_ops_scheme \<Rightarrow> string \<Rightarrow> 'a TypeComputeFunc dispatch" where
  "InitComputeFunc_complex T name =
     (if name = kAssignAdd \<or> name = kAssignSub then NotSet
      else if name = kSquaredDifference then NotEmbedded
      else if name = kSub then NotEmbedded
      else if name = kDiv then Func (DivComplex T)
      else if name = kRealDiv then Func (RealDivComplex T)
      else if name = kMul then Func (Mul T)
      else if name = kDivNoNan then Func (DivNoNan T (t_div T))
      else if name = kAddV2 then NotEmbedded
      else if name = kPow then NotEmbedded
      else if name = kXlogy then NotEmbedded
      else Unsupported)"

text \<open>
  \<^verbatim>\<open>RunFunc\<close>, with \<^verbatim>\<open>compute_func_\<close> as the constructor left it (for \<^verbatim>\<open>AssignAdd\<close> and
  \<^verbatim>\<open>AssignSub\<close> it is never set nor called). The result is the returned flag and the new
  memory; \<open>None\<close> when the member function called is not embedded here or does not
  exist.
\<close>

definition RunFunc ::
  "('a, 'b) T_ops_scheme \<Rightarrow> 'a TypeComputeFunc dispatch \<Rightarrow> ArithmeticCpuTypeFunc
     \<Rightarrow> nat \<Rightarrow> nat \<Rightarrow> nat \<Rightarrow> 'a mem \<Rightarrow> (bool \<times> 'a mem) option" where
  "RunFunc T compute_func this input1 input2 output m =
     (if output_size this = 0 then Some (True, m)
      else if kernel_name this = kAssignAdd then Some (True, AssignAdd T this input1 input2 output m)
      else if kernel_name this = kAssignSub then Some (True, AssignSub T this input1 input2 output m)
      else case compute_func of
             Func f \<Rightarrow> Some (True, f this input1 input2 output m)
           | NotEmbedded \<Rightarrow> None
           | Unsupported \<Rightarrow> None
           | NotSet \<Rightarrow> None)"

subsection \<open>Element types\<close>

text \<open>A conversion from \<^verbatim>\<open>double\<close> to an integer type discards the fraction.\<close>

definition trunc_toward_zero :: "real \<Rightarrow> int" where
  "trunc_toward_zero r = (if 0 \<le> r then \<lfloor>r\<rfloor> else \<lceil>r\<rceil>)"

text \<open>
  \<^verbatim>\<open>T = bool\<close>: arithmetic promotes to \<^verbatim>\<open>int\<close> and the result converts back, so a sum
  is a disjunction, a difference an inequality and a product a conjunction; a quotient
  by a divisor other than zero (which is \<^verbatim>\<open>true\<close>) is the dividend.
\<close>

definition bool_type :: "bool T_real_ops" where
  "bool_type =
     \<lparr> float_fast = None, bool_and = Some (\<lambda>a b. a \<and> b),
       t_zero = False, t_eq = (\<lambda>a b. a = b),
       t_add = (\<lambda>a b. a \<or> b), t_sub = (\<lambda>a b. a \<noteq> b), t_mul = (\<lambda>a b. a \<and> b),
       t_quiet_NaN = False,
       t_div_total = Some (\<lambda>a b. a),
       t_gt = (\<lambda>a b. a \<and> \<not> b), t_neg = (\<lambda>a. a),
       t_has_infinity = False, t_infinity = False, t_max = True, t_min = False,
       t_to_double = (\<lambda>a. Fin (if a then 1 else 0)),
       t_of_double = (\<lambda>d. \<not> feq d (Fin 0)) \<rparr>"

text \<open>
  \<^verbatim>\<open>T = int32_t\<close> and \<^verbatim>\<open>T = int64_t\<close>, as two's-complement words. The integer types
  have no NaN and no infinity: \<^verbatim>\<open>quiet_NaN()\<close> and \<^verbatim>\<open>infinity()\<close> are 0. Their quotient
  is not total, so the kernels that divide are not embedded at these types. A \<^verbatim>\<open>double\<close>
  outside the range of the type converts to the smallest value (what the x86-64
  conversion instruction gives; the language leaves it undefined).
\<close>

definition int32_type :: "32 word T_real_ops" where
  "int32_type =
     \<lparr> float_fast = None, bool_and = None,
       t_zero = 0, t_eq = (\<lambda>a b. a = b),
       t_add = (\<lambda>a b. a + b), t_sub = (\<lambda>a b. a - b), t_mul = (\<lambda>a b. a * b),
       t_quiet_NaN = 0,
       t_div_total = None,
       t_gt = (\<lambda>a b. sint b < sint a), t_neg = (\<lambda>a. - a),
       t_has_infinity = False, t_infinity = 0,
       t_max = word_of_int (2 ^ 31 - 1), t_min = word_of_int (- (2 ^ 31)),
       t_to_double = (\<lambda>a. round_to_format binary64 (of_int (sint a))),
       t_of_double = (\<lambda>d. case d of
                        Fin r \<Rightarrow> if - (2 ^ 31) \<le> trunc_toward_zero r \<and> trunc_toward_zero r < 2 ^ 31
                                 then word_of_int (trunc_toward_zero r)
                                 else word_of_int (- (2 ^ 31))
                      | _ \<Rightarrow> word_of_int (- (2 ^ 31))) \<rparr>"

definition int64_type :: "64 word T_real_ops" where
  "int64_type =
     \<lparr> float_fast = None, bool_and = None,
       t_zero = 0, t_eq = (\<lambda>a b. a = b),
       t_add = (\<lambda>a b. a + b), t_sub = (\<lambda>a b. a - b), t_mul = (\<lambda>a b. a * b),
       t_quiet_NaN = 0,
       t_div_total = None,
       t_gt = (\<lambda>a b. sint b < sint a), t_neg = (\<lambda>a. - a),
       t_has_infinity = False, t_infinity = 0,
       t_max = word_of_int (2 ^ 63 - 1), t_min = word_of_int (- (2 ^ 63)),
       t_to_double = (\<lambda>a. round_to_format binary64 (of_int (sint a))),
       t_of_double = (\<lambda>d. case d of
                        Fin r \<Rightarrow> if - (2 ^ 63) \<le> trunc_toward_zero r \<and> trunc_toward_zero r < 2 ^ 63
                                 then word_of_int (trunc_toward_zero r)
                                 else word_of_int (- (2 ^ 63))
                      | _ \<Rightarrow> word_of_int (- (2 ^ 63))) \<rparr>"

text \<open>
  \<^verbatim>\<open>T = float\<close> (with the nnacl routines of its fast paths) and \<^verbatim>\<open>T = double\<close>.
  \<^verbatim>\<open>numeric_limits<T>::min()\<close> is the smallest positive normal number.
\<close>

definition float_of_double :: "fformat \<Rightarrow> fval \<Rightarrow> fval" where
  "float_of_double fmt d = (case d of Fin r \<Rightarrow> round_to_format fmt r | _ \<Rightarrow> d)"

definition float32_type :: "fval nnacl \<Rightarrow> fval T_real_ops" where
  "float32_type nn =
     \<lparr> float_fast = Some nn, bool_and = None,
       t_zero = Fin 0, t_eq = feq,
       t_add = fadd binary32, t_sub = fsub binary32, t_mul = fmul binary32,
       t_quiet_NaN = NaN,
       t_div_total = Some (fdiv binary32),
       t_gt = fgt, t_neg = fneg,
       t_has_infinity = True, t_infinity = PInf,
       t_max = Fin (max_finite binary32), t_min = Fin (pow2 (emin binary32)),
       t_to_double = (\<lambda>a. a),
       t_of_double = float_of_double binary32 \<rparr>"

definition float64_type :: "fval T_real_ops" where
  "float64_type =
     \<lparr> float_fast = None, bool_and = None,
       t_zero = Fin 0, t_eq = feq,
       t_add = fadd binary64, t_sub = fsub binary64, t_mul = fmul binary64,
       t_quiet_NaN = NaN,
       t_div_total = Some (fdiv binary64),
       t_gt = fgt, t_neg = fneg,
       t_has_infinity = True, t_infinity = PInf,
       t_max = Fin (max_finite binary64), t_min = Fin (pow2 (emin binary64)),
       t_to_double = (\<lambda>a. a),
       t_of_double = (\<lambda>d. d) \<rparr>"

text \<open>
  \<^verbatim>\<open>T = complex64\<close>: a pair of \<^verbatim>\<open>float\<close>s, equal when both parts are equal, added and
  subtracted by parts. The product and the quotient of the complex library and the value
  of \<^verbatim>\<open>numeric_limits<complex64>::quiet_NaN()\<close> are outside these sources and are
  parameters.
\<close>

type_synonym complex64 = "fval \<times> fval"

definition complex64_type ::
  "(complex64 \<Rightarrow> complex64 \<Rightarrow> complex64) \<Rightarrow> (complex64 \<Rightarrow> complex64 \<Rightarrow> complex64) \<Rightarrow> complex64
     \<Rightarrow> complex64 T_complex_ops" where
  "complex64_type cmul cdiv cnan =
     \<lparr> float_fast = None, bool_and = None,
       t_zero = (Fin 0, Fin 0),
       t_eq = (\<lambda>a b. feq (fst a) (fst b) \<and> feq (snd a) (snd b)),
       t_add = (\<lambda>a b. (fadd binary32 (fst a) (fst b), fadd binary32 (snd a) (snd b))),
       t_sub = (\<lambda>a b. (fsub binary32 (fst a) (fst b), fsub binary32 (snd a) (snd b))),
       t_mul = cmul, t_quiet_NaN = cnan, t_div = cdiv \<rparr>"

subsection \<open>Buffers that do not overlap\<close>

text \<open>The cells a broadcast kernel reads are outside the output buffer.\<close>

definition reads_outside_output :: "ArithmeticCpuTypeFunc \<Rightarrow> nat \<Rightarrow> nat \<Rightarrow> nat \<Rightarrow> bool" where
  "reads_outside_output this input1 input2 out \<longleftrightarrow>
     (\<forall>i<output_size this. \<forall>j<output_size this.
        input1 + GetInputPosA (base_iter this) i \<noteq> out + j \<and>
        input2 + GetInputPosB (base_iter this) i \<noteq> out + j)"

text \<open>The three buffers of \<^verbatim>\<open>AssignAdd\<close> and \<^verbatim>\<open>AssignSub\<close>, each of \<open>n\<close> cells, are
  pairwise disjoint.\<close>

definition buffers_disjoint :: "nat \<Rightarrow> nat \<Rightarrow> nat \<Rightarrow> nat \<Rightarrow> bool" where
  "buffers_disjoint n input1 input2 out \<longleftrightarrow>
     (\<forall>i<n. \<forall>j<n. input1 + i \<noteq> out + j \<and> input2 + i \<noteq> out + j \<and> input2 + i \<noteq> input1 + j)"

text \<open>Modelled from the spec: the nnacl routine \<^verbatim>\<open>AssignSubOpt(in0, in1, size)\<close>, which
  \<^verbatim>\<open>AssignSub\<close> calls for \<^verbatim>\<open>T = float\<close> and which is outside these sources, subtracts
  \<^verbatim>\<open>in1[i]\<close> from \<^verbatim>\<open>in0[i]\<close> in place, as \<^verbatim>\<open>AssignSub\<close> does for every other type.\<close>

definition nnacl_AssignSubOpt_in_place :: "('a, 'b) T_ops_scheme \<Rightarrow> bool" where
  "nnacl_AssignSubOpt_in_place T \<longleftrightarrow>
     (\<forall>nn. float_fast T = Some nn \<longrightarrow>
        (\<forall>m in0 in1 n.
           AssignSubOpt nn m in0 in1 n
             = for_loop 0 n (\<lambda>i m. m(in0 + i := t_sub T (m (in0 + i)) (m (in1 + i)))) m))"

text \<open>The input positions that \<^verbatim>\<open>RealDiv\<close> and \<^verbatim>\<open>RealDivComplex\<close> read for output position
  \<open>i\<close>, on each of their four paths.\<close>

definition RealDiv_posA :: "ArithmeticCpuTypeFunc \<Rightarrow> nat \<Rightarrow> nat" where
  "RealDiv_posA this i =
     (if input_shape1 this = input_shape2 this then i
      else if in_elements_num0 this = 1 then 0
      else if in_elements_num1 this = 1 then i
      else GetInputPosA (base_iter this) i)"

definition RealDiv_posB :: "ArithmeticCpuTypeFunc \<Rightarrow> nat \<Rightarrow> nat" where
  "RealDiv_posB this i =
     (if input_shape1 this = input_shape2 this then i
      else if in_elements_num0 this = 1 then i
      else if in_elements_num1 this = 1 then 0
      else GetInputPosB (base_iter this) i)"

definition RealDiv_reads_outside_output :: "ArithmeticCpuTypeFunc \<Rightarrow> nat \<Rightarrow> nat \<Rightarrow> nat \<Rightarrow> bool" where
  "RealDiv_reads_outside_output this input1 input2 out \<longleftrightarrow>
     (\<forall>i<output_size this. \<forall>j<output_size this.
        input1 + RealDiv_posA this i \<noteq> out + j \<and> input2 + RealDiv_posB this i \<noteq> out + j)"

text \<open>The value that the inline text shared by \<^verbatim>\<open>ElementRealDiv\<close>, \<^verbatim>\<open>RealDiv\<close>, \<^verbatim>\<open>Div\<close> and
  \<^verbatim>\<open>FloorDiv\<close> assigns for a divisor equal to zero.\<close>

definition real_div_by_zero :: "('a, 'b) T_real_ops_scheme \<Rightarrow> 'a \<Rightarrow> 'a" where
  "real_div_by_zero T dividend =
     (if t_eq T dividend (t_zero T) then t_quiet_NaN T
      else if t_has_infinity T
           then (if t_gt T dividend (t_zero T) then t_infinity T else t_neg T (t_infinity T))
           else (if t_gt T dividend (t_zero T) then t_max T else t_min T))"

text \<open>A kernel object for two inputs and an output of the same one-dimensional shape
  \<open>[n]\<close>, where the broadcast iterator visits position \<open>i\<close> of both inputs for output
  position \<open>i\<close>.\<close>

definition vector_kernel :: "string \<Rightarrow> nat \<Rightarrow> ArithmeticCpuTypeFunc" where
  "vector_kernel name n =
     \<lparr> kernel_name = name,
       input_shape1 = [int n], input_shape2 = [int n], output_shape = [int n],
       output_size = n, in_elements_num0 = int n, in_elements_num1 = int n,
       base_iter = \<lparr> GetInputPosA = (\<lambda>i. i), GetInputPosB = (\<lambda>i. i) \<rparr> \<rparr>"

text \<open>The textbook formulas for the complex product and quotient, as one possible
  implementation of the library operations.\<close>

definition complex64_mul :: "complex64 \<Rightarrow> complex64 \<Rightarrow> complex64" where
  "complex64_mul a b =
     (fsub binary32 (fmul binary32 (fst a) (fst b)) (fmul binary32 (snd a) (snd b)),
      fadd binary32 (fmul binary32 (fst a) (snd b)) (fmul binary32 (snd a) (fst b)))"

definition complex64_div :: "complex64 \<Rightarrow> complex64 \<Rightarrow> complex64" where
  "complex64_div a b =
     (let den = fadd binary32 (fmul binary32 (fst b) (fst b)) (fmul binary32 (snd b) (snd b))
      in (fdiv binary32 (fadd binary32 (fmul binary32 (fst a) (fst b)) (fmul binary32 (snd a) (snd b))) den,
          fdiv binary32 (fsub binary32 (fmul binary32 (snd a) (fst b)) (fmul binary32 (fst a) (snd b))) den))"

subsection \<open>Registration\<close>

datatype TypeId =
    kNumberTypeBool | kNumberTypeInt8 | kNumberTypeInt16 | kNumberTypeInt32 | kNumberTypeInt64
  | kNumberTypeUInt8 | kNumberTypeUInt16 | kNumberTypeUInt32 | kNumberTypeUInt64
  | kNumberTypeFloat16 | kNumberTypeFloat32 | kNumberTypeFloat64
  | kNumberTypeComplex64 | kNumberTypeComplex128

text \<open>The signatures (two inputs, one output) registered for \<^verbatim>\<open>Mul\<close> in
  \<^verbatim>\<open>kernel_attr_list\<close>, in the order of the source.\<close>

definition kernel_attr_list_Mul :: "(TypeId \<times> TypeId \<times> TypeId) list" where
  "kernel_attr_list_Mul =
     [(kNumberTypeInt32, kNumberTypeInt32, kNumberTypeInt32),
      (kNumberTypeFloat32, kNumberTypeFloat32, kNumberTypeFloat32),
      (kNumberTypeFloat16, kNumberTypeFloat16, kNumberTypeFloat16),
      (kNumberTypeInt64, kNumberTypeInt64, kNumberTypeInt64),
      (kNumberTypeFloat64, kNumberTypeFloat64, kNumberTypeFloat64),
      (kNumberTypeInt16, kNumberTypeInt16, kNumberTypeInt16),
      (kNumberTypeUInt16, kNumberTypeUInt16, kNumberTypeUInt16),
      (kNumberTypeInt8, kNumberTypeInt8, kNumberTypeInt8),
      (kNumberTypeUInt8, kNumberTypeUInt8, kNumberTypeUInt8),
      (kNumberTypeComplex64, kNumberTypeComplex64, kNumberTypeComplex64),
      (kNumberTypeComplex128, kNumberTypeComplex128, kNumberTypeComplex128),
      (kNumberTypeBool, kNumberTypeBool, kNumberTypeBool)]"

text \<open>The signatures registered for \<^verbatim>\<open>AssignAdd\<close> and for \<^verbatim>\<open>AssignSub\<close>, in the order of
  the source, each with its in-place annotation: \<open>Some (o, i)\<close> is \<^verbatim>\<open>AddOutInRef(o, i)\<close>, by
  which output \<open>o\<close> is the buffer of input \<open>i\<close>.\<close>

definition kernel_attr_list_AssignAdd :: "((TypeId \<times> TypeId \<times> TypeId) \<times> (nat \<times> nat) option) list" where
  "kernel_attr_list_AssignAdd =
     [((kNumberTypeInt32, kNumberTypeInt32, kNumberTypeInt32), None),
      ((kNumberTypeFloat32, kNumberTypeFloat32, kNumberTypeFloat32), None),
      ((kNumberTypeInt64, kNumberTypeInt64, kNumberTypeInt64), None),
      ((kNumberTypeFloat64, kNumberTypeFloat64, kNumberTypeFloat64), None)]"

definition kernel_attr_list_AssignSub :: "((TypeId \<times> TypeId \<times> TypeId) \<times> (nat \<times> nat) option) list" where
  "kernel_attr_list_AssignSub =
     [((kNumberTypeInt8, kNumberTypeInt8, kNumberTypeInt8), Some (0, 0)),
      ((kNumberTypeUInt8, kNumberTypeUInt8, kNumberTypeUInt8), Some (0, 0)),
      ((kNumberTypeInt16, kNumberTypeInt16, kNumberTypeInt16), Some (0, 0)),
      ((kNumberTypeUInt16, kNumberTypeUInt16, kNumberTypeUInt16), Some (0, 0)),
      ((kNumberTypeInt32, kNumberTypeInt32, kNumberTypeInt32), Some (0, 0)),
      ((kNumberTypeUInt32, kNumberTypeUInt32, kNumberTypeUInt32), Some (0, 0)),
      ((kNumberTypeFloat32, kNumberTypeFloat32, kNumberTypeFloat32), Some (0, 0)),
      ((kNumberTypeUInt64, kNumberTypeUInt64, kNumberTypeUInt64), Some (0, 0)),
      ((kNumberTypeInt64, kNumberTypeInt64, kNumberTypeInt64), Some (0, 0)),
      ((kNumberTypeFloat64, kNumberTypeFloat64, kNumberTypeFloat64), Some (0, 0))]"

section \<open>Shape and type inference: shared data\<close>

text \<open>
  The inference functions raise exceptions (\<^verbatim>\<open>MS_EXCEPTION(TypeError)\<close>,
  \<^verbatim>\<open>MS_EXCEPTION(ValueError)\<close>, \<^verbatim>\<open>MS_EXCEPTION_IF_NULL\<close> and \<^verbatim>\<open>MS_LOG(EXCEPTION)\<close>); a result
  is the exception raised (\<open>Inl\<close>) or the value returned (\<open>Inr\<close>). \<open>UndefinedBehaviour\<close>
  stands for an access the language leaves undefined (an index outside a vector, a
  dereferenced end iterator).
\<close>

datatype ms_exception = TypeError | ValueError | NullPointerException | LogException | UndefinedBehaviour

type_synonym 'a result = "ms_exception + 'a"

datatype ms_type =
    kBool | kInt8 | kInt16 | kInt32 | kInt64 | kUInt8 | kUInt16 | kUInt32 | kUInt64
  | kFloat16 | kFloat32 | kFloat64 | kComplex64 | kComplex128 | kString
  | TensorType ms_type | Tuple "ms_type list"

type_synonym ShapeVector = "int list"

text \<open>An abstract tensor: the type of its elements and its shape.\<close>

record AbstractTensor =
  element :: ms_type
  shape :: ShapeVector

section \<open>Median (\<^verbatim>\<open>core/ops/median.cc\<close>)\<close>

text \<open>The attributes of the primitive; \<open>None\<close> is an attribute that is not set
  (\<^verbatim>\<open>GetAttr\<close> returns a null pointer).\<close>

record Median_primitive =
  attr_global_median :: "bool option"
  attr_axis :: "int option"
  attr_keep_dims :: "bool option"

datatype RangeMode = kIncludeLeft | kIncludeRight | kIncludeBoth | kIncludeNeither

text \<open>
  Modelled from the spec: \<^verbatim>\<open>CheckAndConvertUtils::CheckInRange\<close> is not part of these
  sources. From the spec (an \<open>axis\<close> in range \<open>[-rank, rank)\<close> is required, and inference
  fails otherwise), with \<^verbatim>\<open>kIncludeLeft\<close> it accepts \<open>lo \<le> v < hi\<close> and raises a
  \<^verbatim>\<open>ValueError\<close> otherwise; the other modes include or exclude the bounds as named.
\<close>

definition CheckInRange :: "int \<Rightarrow> RangeMode \<Rightarrow> int \<times> int \<Rightarrow> unit result" where
  "CheckInRange v mode bounds =
     (let lo = fst bounds; hi = snd bounds;
          ok = (case mode of
                  kIncludeLeft \<Rightarrow> lo \<le> v \<and> v < hi
                | kIncludeRight \<Rightarrow> lo < v \<and> v \<le> hi
                | kIncludeBoth \<Rightarrow> lo \<le> v \<and> v \<le> hi
                | kIncludeNeither \<Rightarrow> lo < v \<and> v < hi)
      in if ok then Inr () else Inl ValueError)"

text \<open>\<^verbatim>\<open>GetValue<T>\<close> of an attribute that is not set dereferences a null pointer.\<close>

definition GetValue :: "'a option \<Rightarrow> 'a result" where
  "GetValue v = (case v of None \<Rightarrow> Inl NullPointerException | Some x \<Rightarrow> Inr x)"

text \<open>Sequencing of computations that may raise.\<close>

definition bind_result :: "'a result \<Rightarrow> ('a \<Rightarrow> 'b result) \<Rightarrow> 'b result" where
  "bind_result r f = (case r of Inl e \<Rightarrow> Inl e | Inr x \<Rightarrow> f x)"

text \<open>\<^verbatim>\<open>input_args[0]\<close>, a pointer that may be null, in a vector that may be empty.\<close>

definition first_arg :: "'a option list \<Rightarrow> 'a result" where
  "first_arg input_args =
     (case input_args of
        [] \<Rightarrow> Inl UndefinedBehaviour
      | None # _ \<Rightarrow> Inl NullPointerException
      | Some x # _ \<Rightarrow> Inr x)"

text \<open>\<^verbatim>\<open>MedianInferShape\<close>; the result is the tuple shape as the list of its two (equal)
  shapes.\<close>

definition MedianInferShape :: "Median_primitive \<Rightarrow> AbstractTensor option list \<Rightarrow> ShapeVector list result" where
  "MedianInferShape primitive input_args =
     bind_result (first_arg input_args) (\<lambda>x.
     let x_shape = shape x;
         x_size = int (length x_shape)
     in case attr_global_median primitive of
          None \<Rightarrow> Inl NullPointerException
        | Some global_median \<Rightarrow>
            if \<not> global_median then
              bind_result (GetValue (attr_axis primitive)) (\<lambda>axis.
              bind_result (GetValue (attr_keep_dims primitive)) (\<lambda>keepdim.
              bind_result (if x_size = 0
                           then CheckInRange axis kIncludeLeft (-1, 1)
                           else CheckInRange axis kIncludeLeft (- x_size, x_size)) (\<lambda>_.
              let axis' = (if axis < 0 then axis + x_size else axis);
                  out = for_loop 0 (nat x_size) (\<lambda>i out.
                          if int i = axis' then (if keepdim then out @ [1] else out)
                          else out @ [x_shape ! i]) []
              in Inr [out, out])))
            else Inr [[], []])"

text \<open>
  \<^verbatim>\<open>MedianInferType\<close>.
  Modelled from the spec: \<^verbatim>\<open>CheckTensorTypeValid\<close> is not part of these sources; it raises
  a \<^verbatim>\<open>TypeError\<close> unless the argument is a tensor whose element type is one of the valid
  types.
\<close>

definition valid_types :: "ms_type list" where
  "valid_types = [kInt16, kInt32, kInt64, kFloat32, kFloat64]"

definition CheckTensorTypeValid :: "ms_type \<Rightarrow> ms_type list \<Rightarrow> ms_type result" where
  "CheckTensorTypeValid t valid =
     (case t of
        TensorType e \<Rightarrow> if e \<in> set valid then Inr t else Inl TypeError
      | _ \<Rightarrow> Inl TypeError)"

definition BuildType :: "AbstractTensor \<Rightarrow> ms_type" where
  "BuildType a = TensorType (element a)"

definition MedianInferType :: "Median_primitive \<Rightarrow> AbstractTensor option list \<Rightarrow> ms_type result" where
  "MedianInferType primitive input_args =
     (if \<exists>a \<in> set input_args. a = None then Inl LogException
      else bind_result (first_arg input_args) (\<lambda>x.
           bind_result (CheckTensorTypeValid (BuildType x) valid_types) (\<lambda>_.
           Inr (Tuple [BuildType x, TensorType kInt64]))))"

section \<open>Sparse tensor constructors (\<^verbatim>\<open>core/abstract/ops/prim_others.cc\<close>)\<close>

text \<open>
  An abstract tuple (the dense shape): the types of its elements and, when the tuple is a
  constant, its value (\<^verbatim>\<open>BuildValue()->cast<ValueTuplePtr>()\<close> is null otherwise). The
  elements of a constant shape tuple are taken to be \<^verbatim>\<open>int64\<close> immediates, so that
  \<^verbatim>\<open>GetValue<int64_t>\<close> returns them.
\<close>

record AbstractTuple =
  ElementsType :: "ms_type list"
  tuple_value :: "int list option"

datatype AbstractSparse =
    AbstractCOOTensor AbstractTensor AbstractTensor AbstractTuple
  | AbstractCSRTensor AbstractTensor AbstractTensor AbstractTensor AbstractTuple

text \<open>\<^verbatim>\<open>elem_type->isa<Int>()\<close>: the signed integer types.\<close>

definition isa_Int :: "ms_type \<Rightarrow> bool" where
  "isa_Int t \<longleftrightarrow> t = kInt8 \<or> t = kInt16 \<or> t = kInt32 \<or> t = kInt64"

definition CheckSparseShape :: "nat \<Rightarrow> nat \<Rightarrow> unit result" where
  "CheckSparseShape shape_size expected_dim =
     (if shape_size \<noteq> expected_dim then Inl ValueError else Inr ())"

definition CheckSparseIndicesDtype :: "ms_type \<Rightarrow> unit result" where
  "CheckSparseIndicesDtype data_type =
     (if \<not> (data_type = kInt16 \<or> data_type = kInt32 \<or> data_type = kInt64)
      then Inl TypeError else Inr ())"

text \<open>\<open>v[i]\<close> on a \<^verbatim>\<open>std::vector\<close>: undefined outside the vector.\<close>

definition at_index :: "'a list \<Rightarrow> nat \<Rightarrow> 'a result" where
  "at_index v i = (if i < length v then Inr (v ! i) else Inl UndefinedBehaviour)"

text \<open>
  \<^verbatim>\<open>InferImplMakeCOOTensor\<close>, from the point where \<^verbatim>\<open>CheckArgsSize\<close> and \<^verbatim>\<open>CheckArg\<close>
  (declared outside these sources) have accepted the three arguments as two tensors and
  a tuple. \<^verbatim>\<open>std::min_element\<close> compares the element pointers of the value tuple, and
  \<^verbatim>\<open>min_elem <= 0\<close> asks whether that pointer is null, which it is not for the elements
  of a tuple; on an empty tuple it dereferences the end iterator.
\<close>

definition InferImplMakeCOOTensor ::
  "AbstractTensor \<Rightarrow> AbstractTensor \<Rightarrow> AbstractTuple \<Rightarrow> AbstractSparse result" where
  "InferImplMakeCOOTensor indices values dense_shape =
     bind_result (CheckSparseIndicesDtype (element indices)) (\<lambda>_.
     let indices_shp = shape indices in
     bind_result (CheckSparseShape (length indices_shp) 2) (\<lambda>_.
     let values_shp = shape values in
     bind_result (CheckSparseShape (length values_shp) 1) (\<lambda>_.
     if indices_shp ! 0 \<noteq> values_shp ! 0 then Inl ValueError
     else if indices_shp ! 1 \<noteq> 2 then Inl ValueError
     else if \<exists>elem_type \<in> set (ElementsType dense_shape). \<not> isa_Int elem_type then Inl TypeError
     else case tuple_value dense_shape of
            None \<Rightarrow> Inl NullPointerException
          | Some shp \<Rightarrow>
              if shp = [] then Inl UndefinedBehaviour
              else let dense_shape_vec = shp in
                if nat (indices_shp ! 1) \<noteq> length dense_shape_vec then Inl TypeError
                else if \<exists>dense_shape_elem \<in> set dense_shape_vec. dense_shape_elem \<le> 0 then Inl TypeError
                else Inr (AbstractCOOTensor indices values dense_shape))))"

text \<open>The loop of \<^verbatim>\<open>InferImplMakeCSRTensor\<close> over the dimensions of the shape, from
  dimension \<open>i\<close> on; \<^verbatim>\<open>shape_size\<close> is a \<^verbatim>\<open>size_t\<close>.\<close>

fun CSR_shape_loop ::
  "int list \<Rightarrow> int list \<Rightarrow> ms_type list \<Rightarrow> nat list \<Rightarrow> size_t \<Rightarrow> size_t result" where
  "CSR_shape_loop shape_vec values_shp shape_types [] shape_size = Inr shape_size"
| "CSR_shape_loop shape_vec values_shp shape_types (i # rest) shape_size =
     (if shape_vec ! i \<le> 0 then Inl ValueError
      else if i > 1 \<and> shape_vec ! i \<noteq> values_shp ! (i - 1) then Inl ValueError
      else case at_index shape_types i of
             Inl e \<Rightarrow> Inl e
           | Inr t \<Rightarrow>
               if \<not> isa_Int t then Inl TypeError
               else CSR_shape_loop shape_vec values_shp shape_types rest
                      (shape_size * word_of_int (shape_vec ! i)))"

text \<open>\<^verbatim>\<open>InferImplMakeCSRTensor\<close>, from the point where the four arguments have been accepted
  as three tensors and a tuple.\<close>

definition InferImplMakeCSRTensor ::
  "AbstractTensor \<Rightarrow> AbstractTensor \<Rightarrow> AbstractTensor \<Rightarrow> AbstractTuple \<Rightarrow> AbstractSparse result" where
  "InferImplMakeCSRTensor indptr indices values shape_arg =
     bind_result (CheckSparseIndicesDtype (element indptr)) (\<lambda>_.
     bind_result (CheckSparseIndicesDtype (element indices)) (\<lambda>_.
     let indptr_shp = shape indptr in
     bind_result (CheckSparseShape (length indptr_shp) 1) (\<lambda>_.
     let indices_shp = shape indices in
     bind_result (CheckSparseShape (length indices_shp) 1) (\<lambda>_.
     let values_shp = shape values in
     bind_result (at_index values_shp 0) (\<lambda>values_shp_0.
     if indices_shp ! 0 \<noteq> values_shp_0 then Inl ValueError
     else case tuple_value shape_arg of
            None \<Rightarrow> Inl NullPointerException
          | Some shape_vec \<Rightarrow>
              if length values_shp + 1 \<noteq> length shape_vec then Inl ValueError
              else if shape_vec ! 0 + 1 \<noteq> indptr_shp ! 0 then Inl ValueError
              else bind_result
                     (CSR_shape_loop shape_vec values_shp (ElementsType shape_arg)
                        [0..<length shape_vec] 1) (\<lambda>shape_size.
                   if sint shape_size < values_shp_0 then Inl ValueError
                   else Inr (AbstractCSRTensor indptr indices values shape_arg)))))))"

section \<open>Linear sum assignment (\<^verbatim>\<open>LinearSumAssignmentCpuKernelMod\<close>, in \<^verbatim>\<open>cpu/kernel/eigen/expand_cpu_kernel.h\<close>)\<close>

text \<open>
  The solver works on \<^verbatim>\<open>std::vector\<close>s and on raw pointers. \<^verbatim>\<open>v->at(i)\<close> raises
  \<^verbatim>\<open>std::out_of_range\<close> outside the vector; \<^verbatim>\<open>v[i]\<close> and \<^verbatim>\<open>p[i]\<close> are undefined outside
  the vector or buffer; a vector of negative size cannot be constructed; \<^verbatim>\<open>MS_LOG(EXCEPTION)\<close>
  raises; \<^verbatim>\<open>Resize\<close> fails with \<^verbatim>\<open>KRET_RESIZE_FAILED\<close> and the kernel is not launched. Each is
  an error value of the model. Indices are \<^verbatim>\<open>int64_t\<close>, modelled as
  unbounded integers: an index that is used is inside a buffer.
\<close>

datatype lsa_fault = out_of_range | undefined_behaviour | length_error | log_exception | resize_failed

type_synonym 'a lsa = "lsa_fault + 'a"

definition bind_lsa :: "'a lsa \<Rightarrow> ('a \<Rightarrow> 'b lsa) \<Rightarrow> 'b lsa" where
  "bind_lsa r f = (case r of Inl e \<Rightarrow> Inl e | Inr x \<Rightarrow> f x)"

text \<open>\<^verbatim>\<open>v->at(i)\<close>, read and written.\<close>

definition vec_at :: "'a list \<Rightarrow> int \<Rightarrow> 'a lsa" where
  "vec_at vec i = (if 0 \<le> i \<and> i < int (length vec) then Inr (vec ! nat i) else Inl out_of_range)"

definition vec_at_put :: "'a list \<Rightarrow> int \<Rightarrow> 'a \<Rightarrow> 'a list lsa" where
  "vec_at_put vec i x = (if 0 \<le> i \<and> i < int (length vec) then Inr (vec[nat i := x]) else Inl out_of_range)"

text \<open>\<^verbatim>\<open>v[i]\<close> and \<^verbatim>\<open>p[i]\<close>, read and written.\<close>

definition idx :: "'a list \<Rightarrow> int \<Rightarrow> 'a lsa" where
  "idx vec i = (if 0 \<le> i \<and> i < int (length vec) then Inr (vec ! nat i) else Inl undefined_behaviour)"

definition idx_put :: "'a list \<Rightarrow> int \<Rightarrow> 'a \<Rightarrow> 'a list lsa" where
  "idx_put vec i x = (if 0 \<le> i \<and> i < int (length vec) then Inr (vec[nat i := x]) else Inl undefined_behaviour)"

text \<open>\<^verbatim>\<open>std::vector<T> v(n, x)\<close>.\<close>

definition vec_new :: "int \<Rightarrow> 'a \<Rightarrow> 'a list lsa" where
  "vec_new n x = (if 0 \<le> n then Inr (replicate (nat n) x) else Inl length_error)"

text \<open>\<^verbatim>\<open>for (int64_t i = 0; i < n; i++)\<close> over a state, and the indices it visits.\<close>

definition loop_range :: "int \<Rightarrow> int list" where
  "loop_range n = map int [0..<nat n]"

fun for_lsa :: "int list \<Rightarrow> (int \<Rightarrow> 's \<Rightarrow> 's lsa) \<Rightarrow> 's \<Rightarrow> 's lsa" where
  "for_lsa [] body s = Inr s"
| "for_lsa (i # rest) body s = bind_lsa (body i s) (for_lsa rest body)"

text \<open>The narrowing of an \<^verbatim>\<open>int64_t\<close> to \<^verbatim>\<open>int\<close>.\<close>

definition to_int32 :: "int \<Rightarrow> int" where
  "to_int32 n = sint (word_of_int n :: 32 word)"

subsection \<open>check_value\<close>

fun check_value_loop :: "fval list \<Rightarrow> int list \<Rightarrow> bool lsa" where
  "check_value_loop cost [] = Inr True"
| "check_value_loop cost (i # rest) =
     bind_lsa (idx cost i) (\<lambda>c.
       if isnan c \<or> feq c (fneg PInf) then Inr False else check_value_loop cost rest)"

definition check_value :: "fval list \<Rightarrow> int \<Rightarrow> int \<Rightarrow> bool lsa" where
  "check_value cost nr nc = check_value_loop cost (loop_range (nr * nc))"

subsection \<open>AugmentingPath\<close>

text \<open>The vectors of \<^verbatim>\<open>Solve\<close> that \<^verbatim>\<open>AugmentingPath\<close> and \<^verbatim>\<open>AugmentPreviousSolution\<close>
  receive by pointer.\<close>

record lsa_state =
  st_u :: "fval list"
  st_v :: "fval list"
  st_shortest_path_costs :: "fval list"
  st_path :: "int list"
  st_col4row :: "int list"
  st_row4col :: "int list"
  st_SR :: "bool list"
  st_SC :: "bool list"
  st_remaining :: "int list"

text \<open>The body of the inner \<^verbatim>\<open>for\<close> loop, on the vectors and the locals \<^verbatim>\<open>lowest\<close> and
  \<^verbatim>\<open>index\<close>. The sum \<^verbatim>\<open>min_val + cost[i * nc + j] - u->at(i) - v->at(j)\<close> associates to the
  left and every operation rounds to \<^verbatim>\<open>T\<close>.\<close>

definition AugmentingPath_scan ::
  "fformat \<Rightarrow> int \<Rightarrow> fval list \<Rightarrow> int \<Rightarrow> fval \<Rightarrow> int
     \<Rightarrow> lsa_state \<times> fval \<times> int \<Rightarrow> (lsa_state \<times> fval \<times> int) lsa" where
  "AugmentingPath_scan fmt nc cost i min_val it = (\<lambda>(st, lowest, index).
     bind_lsa (vec_at (st_remaining st) it) (\<lambda>j.
     bind_lsa (idx cost (i * nc + j)) (\<lambda>c.
     bind_lsa (vec_at (st_u st) i) (\<lambda>u_i.
     bind_lsa (vec_at (st_v st) j) (\<lambda>v_j.
     let r = fsub fmt (fsub fmt (fadd fmt min_val c) u_i) v_j in
     bind_lsa (vec_at (st_shortest_path_costs st) j) (\<lambda>old.
     bind_lsa (if flt r old
               then bind_lsa (vec_at_put (st_path st) j i) (\<lambda>p.
                    bind_lsa (vec_at_put (st_shortest_path_costs st) j r) (\<lambda>s.
                    Inr (st\<lparr> st_path := p, st_shortest_path_costs := s \<rparr>)))
               else Inr st) (\<lambda>st1.
     bind_lsa (vec_at (st_shortest_path_costs st1) j) (\<lambda>spc_j.
     bind_lsa (if flt spc_j lowest then Inr True
               else if feq spc_j lowest
                    then bind_lsa (vec_at (st_row4col st1) j) (\<lambda>r4. Inr (r4 = - 1))
                    else Inr False) (\<lambda>better.
     if better then Inr (st1, spc_j, it) else Inr (st1, lowest, index))))))))))"

text \<open>The \<^verbatim>\<open>while (sink == -1)\<close> loop, from the state at the head of an iteration.
  \<^verbatim>\<open>num_remaining\<close> counts down from \<^verbatim>\<open>nc\<close>; at zero \<^verbatim>\<open>--num_remaining\<close> is \<open>-1\<close>, outside
  every vector. The result is the value returned and what \<^verbatim>\<open>*p_min_val\<close> received, if it
  was written.\<close>

fun AugmentingPath_while ::
  "fformat \<Rightarrow> int \<Rightarrow> fval list \<Rightarrow> lsa_state \<Rightarrow> int \<Rightarrow> fval \<Rightarrow> nat
     \<Rightarrow> (int \<times> fval option \<times> lsa_state) lsa" where
  "AugmentingPath_while fmt nc cost st i min_val num_remaining =
     bind_lsa (vec_at_put (st_SR st) i True) (\<lambda>sr.
     bind_lsa (for_lsa (loop_range (int num_remaining)) (AugmentingPath_scan fmt nc cost i min_val)
                 (st\<lparr> st_SR := sr \<rparr>, PInf, - 1)) (\<lambda>(st1, lowest, index).
     if feq lowest PInf then Inr (- 1, None, st1)
     else
       bind_lsa (vec_at (st_remaining st1) index) (\<lambda>j.
       bind_lsa (vec_at (st_row4col st1) j) (\<lambda>r4.
       bind_lsa (vec_at_put (st_SC st1) j True) (\<lambda>sc.
       case num_remaining of
         0 \<Rightarrow> Inl out_of_range
       | Suc k \<Rightarrow>
           bind_lsa (vec_at (st_remaining st1) (int k)) (\<lambda>last.
           bind_lsa (vec_at_put (st_remaining st1) index last) (\<lambda>rem.
           let st2 = st1\<lparr> st_SC := sc, st_remaining := rem \<rparr>
           in if r4 = - 1 then Inr (j, Some lowest, st2)
              else AugmentingPath_while fmt nc cost st2 r4 lowest k)))))))"

definition AugmentingPath ::
  "fformat \<Rightarrow> int \<Rightarrow> fval list \<Rightarrow> lsa_state \<Rightarrow> int \<Rightarrow> (int \<times> fval option \<times> lsa_state) lsa" where
  "AugmentingPath fmt nc cost st i =
     bind_lsa (for_lsa (loop_range nc) (\<lambda>it rem. vec_at_put rem it (nc - it - 1)) (st_remaining st)) (\<lambda>rem.
     let st0 = st\<lparr> st_remaining := rem,
                    st_SR := replicate (length (st_SR st)) False,
                    st_SC := replicate (length (st_SC st)) False,
                    st_shortest_path_costs := replicate (length (st_shortest_path_costs st)) PInf \<rparr>
     in AugmentingPath_while fmt nc cost st0 i (Fin 0) (nat nc))"

subsection \<open>ReArrange, AugmentPreviousSolution, PostProcess\<close>

text \<open>\<^verbatim>\<open>ReArrange\<close> returns the two dimensions, swapped when it transposes, and the vector
  \<^verbatim>\<open>temp\<close>.\<close>

definition ReArrange ::
  "int \<Rightarrow> int \<Rightarrow> int \<Rightarrow> fval list \<Rightarrow> fval list \<Rightarrow> bool \<Rightarrow> bool \<Rightarrow> (int \<times> int \<times> fval list) lsa" where
  "ReArrange origin_nr origin_nc raw_nc temp cost do_transpose maximize =
     (let nr = to_int32 origin_nr; nc = to_int32 origin_nc
      in bind_lsa
           (if do_transpose
            then bind_lsa (for_lsa (loop_range nr) (\<lambda>i. for_lsa (loop_range nc) (\<lambda>j t.
                             bind_lsa (idx cost (i * raw_nc + j)) (\<lambda>c. vec_at_put t (j * nr + i) c))) temp)
                   (\<lambda>t. Inr (origin_nc, origin_nr, t))
            else bind_lsa (for_lsa (loop_range nr) (\<lambda>i. for_lsa (loop_range nc) (\<lambda>j t.
                             bind_lsa (idx cost (i * raw_nc + j)) (\<lambda>c. vec_at_put t (i * nr + j) c))) temp)
                   (\<lambda>t. Inr (origin_nr, origin_nc, t)))
           (\<lambda>(nr', nc', t). Inr (nr', nc', if maximize then map fneg t else t)))"

text \<open>\<^verbatim>\<open>while (true)\<close>: the loop ends when the path reaches \<^verbatim>\<open>cur_row\<close>, which the code does
  not bound.\<close>

partial_function (option) AugmentPreviousSolution ::
  "int \<Rightarrow> int \<Rightarrow> lsa_state \<Rightarrow> lsa_state lsa option" where
  "AugmentPreviousSolution j cur_row st =
     (case vec_at (st_path st) j of
        Inl e \<Rightarrow> Some (Inl e)
      | Inr i \<Rightarrow>
         (case vec_at_put (st_row4col st) j i of
            Inl e \<Rightarrow> Some (Inl e)
          | Inr r4c \<Rightarrow>
             (case vec_at (st_col4row st) i of
                Inl e \<Rightarrow> Some (Inl e)
              | Inr old \<Rightarrow>
                 (let st' = st\<lparr> st_row4col := r4c, st_col4row := (st_col4row st)[nat i := j] \<rparr>
                  in if i = cur_row then Some (Inr st')
                     else AugmentPreviousSolution old cur_row st'))))"

text \<open>\<^verbatim>\<open>std::sort\<close> of the indices by their \<^verbatim>\<open>col4row\<close>: the order of indices with equal
  keys is unspecified, and is here the order of a stable sort.\<close>

definition PostProcess ::
  "int list \<Rightarrow> int list \<Rightarrow> int list \<Rightarrow> bool \<Rightarrow> int \<Rightarrow> int \<Rightarrow> int \<Rightarrow> (int list \<times> int list) lsa" where
  "PostProcess a b col4row do_transpose nr0 nc0 element_num0 =
     (let nr = to_int32 nr0; nc = to_int32 nc0; element_num = to_int32 element_num0;
          index = sort_key (\<lambda>i. col4row ! nat i) (loop_range (int (length col4row)))
      in bind_lsa
           (if do_transpose
            then for_lsa (loop_range (int (length index))) (\<lambda>i (a, b).
                   let val = index ! nat i in
                   bind_lsa (idx_put a i (col4row ! nat val)) (\<lambda>a'.
                   bind_lsa (idx_put b i val) (\<lambda>b'. Inr (a', b')))) (a, b)
            else for_lsa (loop_range nr) (\<lambda>i (a, b).
                   bind_lsa (idx_put a i i) (\<lambda>a'.
                   bind_lsa (idx col4row i) (\<lambda>c.
                   bind_lsa (idx_put b i c) (\<lambda>b'. Inr (a', b'))))) (a, b))
           (for_lsa (map (\<lambda>k. min nr nc + k) (loop_range (element_num - min nr nc))) (\<lambda>i (a, b).
              bind_lsa (idx_put a i (- 1)) (\<lambda>a'.
              bind_lsa (idx_put b i (- 1)) (\<lambda>b'. Inr (a', b'))))))"

subsection \<open>Solve and LaunchKernel\<close>

text \<open>The three updates of the dual variables after a path was found.\<close>

definition update_duals :: "fformat \<Rightarrow> int \<Rightarrow> int \<Rightarrow> int \<Rightarrow> fval \<Rightarrow> lsa_state \<Rightarrow> lsa_state lsa" where
  "update_duals fmt nr nc cur_row min_val st =
     bind_lsa (idx (st_u st) cur_row) (\<lambda>u_cur.
     bind_lsa (idx_put (st_u st) cur_row (fadd fmt u_cur min_val)) (\<lambda>u1.
     bind_lsa (for_lsa (loop_range nr) (\<lambda>i us.
                 bind_lsa (idx (st_SR st) i) (\<lambda>sr.
                 if sr \<and> i \<noteq> cur_row
                 then bind_lsa (idx (st_col4row st) i) (\<lambda>c.
                      bind_lsa (idx (st_shortest_path_costs st) c) (\<lambda>s.
                      bind_lsa (idx us i) (\<lambda>u_i.
                      idx_put us i (fadd fmt u_i (fsub fmt min_val s)))))
                 else Inr us)) u1) (\<lambda>u2.
     bind_lsa (for_lsa (loop_range nc) (\<lambda>j vs.
                 bind_lsa (idx (st_SC st) j) (\<lambda>sc.
                 if sc
                 then bind_lsa (idx (st_shortest_path_costs st) j) (\<lambda>s.
                      bind_lsa (idx vs j) (\<lambda>v_j.
                      idx_put vs j (fsub fmt v_j (fsub fmt min_val s))))
                 else Inr vs)) (st_v st)) (\<lambda>v2.
     Inr (st\<lparr> st_u := u2, st_v := v2 \<rparr>)))))"

text \<open>The loop over \<^verbatim>\<open>cur_row\<close>: the result is whether every row found a path. The local
  \<^verbatim>\<open>min_val\<close> is uninitialised until \<^verbatim>\<open>AugmentingPath\<close> writes it through \<^verbatim>\<open>p_min_val\<close>, which it
  does whenever it returns a sink.\<close>

fun Solve_rows ::
  "fformat \<Rightarrow> int \<Rightarrow> int \<Rightarrow> fval list \<Rightarrow> int list \<Rightarrow> lsa_state \<Rightarrow> (bool \<times> lsa_state) lsa option" where
  "Solve_rows fmt nr nc cost [] st = Some (Inr (True, st))"
| "Solve_rows fmt nr nc cost (cur_row # rest) st =
     (case AugmentingPath fmt nc cost st cur_row of
        Inl e \<Rightarrow> Some (Inl e)
      | Inr (sink, p_min_val, st1) \<Rightarrow>
         if sink < 0 then Some (Inr (False, st1))
         else (case p_min_val of
                 None \<Rightarrow> Some (Inl undefined_behaviour)
               | Some min_val \<Rightarrow>
                  (case update_duals fmt nr nc cur_row min_val st1 of
                     Inl e \<Rightarrow> Some (Inl e)
                   | Inr st2 \<Rightarrow>
                      (case AugmentPreviousSolution sink cur_row st2 of
                         None \<Rightarrow> None
                       | Some (Inl e) \<Rightarrow> Some (Inl e)
                       | Some (Inr st3) \<Rightarrow> Solve_rows fmt nr nc cost rest st3))))"

definition initial_state :: "int \<Rightarrow> int \<Rightarrow> lsa_state lsa" where
  "initial_state nr nc =
     bind_lsa (vec_new nr (Fin 0)) (\<lambda>u0.
     bind_lsa (vec_new nc (Fin 0)) (\<lambda>v0.
     bind_lsa (vec_new nr (- 1)) (\<lambda>c4r.
     bind_lsa (vec_new nc (- 1)) (\<lambda>r4c.
     bind_lsa (vec_new nr False) (\<lambda>sr.
     bind_lsa (vec_new nc False) (\<lambda>sc.
     bind_lsa (vec_new nc 0) (\<lambda>rem.
     Inr \<lparr> st_u = u0, st_v = v0, st_shortest_path_costs = v0, st_path = r4c,
           st_col4row = c4r, st_row4col = r4c, st_SR = sr, st_SC = sc, st_remaining = rem \<rparr>)))))))"

definition Solve ::
  "fformat \<Rightarrow> int \<Rightarrow> int \<Rightarrow> int \<Rightarrow> fval list \<Rightarrow> bool \<Rightarrow> int list \<Rightarrow> int list
     \<Rightarrow> (bool \<times> int list \<times> int list) lsa option" where
  "Solve fmt nr nc raw_nc cost maximize a b =
     (if nr = 0 \<or> nc = 0 then Some (Inr (True, a, b))
      else
        let element_num = min nr raw_nc;
            do_transpose = nc < nr
        in case (if do_transpose \<or> maximize
                 then bind_lsa (vec_new (nr * nc) (Fin 0)) (\<lambda>temp.
                        ReArrange nr nc raw_nc temp cost do_transpose maximize)
                 else Inr (nr, nc, cost)) of
             Inl e \<Rightarrow> Some (Inl e)
           | Inr (nr, nc, cost) \<Rightarrow>
              (case check_value cost nr nc of
                 Inl e \<Rightarrow> Some (Inl e)
               | Inr valid \<Rightarrow>
                  if \<not> valid then Some (Inr (False, a, b))
                  else (case initial_state nr nc of
                          Inl e \<Rightarrow> Some (Inl e)
                        | Inr st \<Rightarrow>
                           (case Solve_rows fmt nr nc cost (loop_range nr) st of
                              None \<Rightarrow> None
                            | Some (Inl e) \<Rightarrow> Some (Inl e)
                            | Some (Inr (found, st')) \<Rightarrow>
                               if \<not> found then Some (Inr (False, a, b))
                               else (case PostProcess a b (st_col4row st') do_transpose nr nc element_num of
                                       Inl e \<Rightarrow> Some (Inl e)
                                     | Inr (a', b') \<Rightarrow> Some (Inr (True, a', b')))))))"

text \<open>\<^verbatim>\<open>Resize\<close> and \<^verbatim>\<open>LaunchKernel\<close>, from the shape of the cost matrix, which \<^verbatim>\<open>Resize\<close>
  accepts at rank 2 only, and the three inputs: the cost matrix in row-major order, the
  dimension limit and the flag. The output buffers come as the lists \<open>row_ind\<close> and \<open>col_ind\<close>
  and are returned as the kernel leaves them.\<close>

definition INT64_MAX :: int where
  "INT64_MAX = 2 ^ 63 - 1"

definition LaunchKernel ::
  "fformat \<Rightarrow> int list \<Rightarrow> fval list \<Rightarrow> int \<Rightarrow> bool \<Rightarrow> int list \<Rightarrow> int list
     \<Rightarrow> (bool \<times> int list \<times> int list) lsa option" where
  "LaunchKernel fmt cost_matrix_shape cost_matrix dimension_limit maximize row_ind col_ind =
     (case cost_matrix_shape of
        [nr, nc] \<Rightarrow>
          if dimension_limit = INT64_MAX
          then Solve fmt nr nc nc cost_matrix maximize row_ind col_ind
          else if dimension_limit > nc then Some (Inl log_exception)
          else if dimension_limit \<le> 0 then Some (Inr (False, row_ind, col_ind))
          else Solve fmt nr dimension_limit nc cost_matrix maximize row_ind col_ind
      | _ \<Rightarrow> Some (Inl resize_failed))"

subsection \<open>The cost of an assignment\<close>

text \<open>
  The total cost of the pairs \<open>(row_ind[k], col_ind[k])\<close> that a run returns, read off the cost
  matrix of \<open>raw_nc\<close> columns in row-major order. A pair holding the sentinel \<open>-1\<close> assigns
  nothing. This is the specification's measure of a result, not code of the kernel.
\<close>

definition fval_real :: "fval \<Rightarrow> real" where
  "fval_real x = (case x of Fin r \<Rightarrow> r | _ \<Rightarrow> 0)"

definition spec_total_cost :: "fval list \<Rightarrow> int \<Rightarrow> int list \<Rightarrow> int list \<Rightarrow> real" where
  "spec_total_cost cost raw_nc row_ind col_ind =
     sum_list (map (\<lambda>(i, j). fval_real (cost ! nat (i * raw_nc + j)))
                   (filter (\<lambda>(i, j). 0 \<le> i \<and> 0 \<le> j) (zip row_ind col_ind)))"

chapter \<open>Theorems\<close>

section \<open>SOMAS alignment\<close>

lemma aligned_size_unat:
  "unat (aligned_size (SomasTensor_ctor i n s real_size l)) =
     (if real_size = 0 then 0
      else ((((unat real_size + 543) mod 2 ^ 64) div 512) * 512) mod 2 ^ 64)"
proof (cases "real_size = 0")
  case True
  then show ?thesis by (simp add: SomasTensor_ctor_def)
next
  case False
  then have pos: "0 < real_size" by (simp add: word_gt_0)
  have "aligned_size (SomasTensor_ctor i n s real_size l) = ((real_size + 543) div 512) * 512"
    using pos by (simp add: SomasTensor_ctor_def alignment_def alignment_complement_def add.assoc)
  moreover have "unat (((real_size + 543) div 512) * 512)
     = ((((unat real_size + 543) mod 2 ^ 64) div 512) * 512) mod 2 ^ 64"
    by (simp add: unat_word_ariths unat_div)
  ultimately show ?thesis using False by simp
qed

lemma aligned_size_no_wrap:
  assumes "unat (real_size :: size_t) + 543 < 2 ^ 64" and "real_size \<noteq> 0"
  shows "unat (aligned_size (SomasTensor_ctor i n s real_size l)) =
           ((unat real_size + 543) div 512) * 512"
proof -
  have a: "(unat real_size + 543) mod 2 ^ 64 = unat real_size + 543"
    using assms by simp
  have "((unat real_size + 543) div 512) * 512 \<le> unat real_size + 543"
    by simp
  then have b: "((unat real_size + 543) div 512) * 512 < 2 ^ 64"
    using assms by linarith
  show ?thesis
    using assms(2) a b by (simp add: aligned_size_unat)
qed

lemma div_543: "((m::nat) + 543) div 512 = (m + 31) div 512 + 1"
proof -
  have "m + 543 = (m + 31) + 512" by simp
  then show ?thesis by (simp only: div_add_self2)
qed

lemma div_round_up: "((a::nat) + 511) div 512 = a div 512 + (if 512 dvd a then 0 else 1)"
proof -
  have r: "a mod 512 < 512" by simp
  have "(a + 511) div 512 = a div 512 + 511 div 512 + (a mod 512 + 511 mod 512) div 512"
    by (rule div_add1_eq)
  also have "\<dots> = a div 512 + (a mod 512 + 511) div 512" by simp
  also have "(a mod 512 + 511) div 512 = (if a mod 512 = 0 then 0 else 1)"
    using r by (cases "a mod 512 = 0") (simp_all add: div_nat_eqI)
  finally show ?thesis by (simp add: dvd_eq_mod_eq_0)
qed

lemma spec_ceil_aligned_nat: "spec_ceil_aligned n = ((n + 31 + 511) div 512) * 512"
proof -
  define z where "z = (n + 31 + 511) div 512"
  have lo: "512 * z \<le> n + 31 + 511" unfolding z_def by simp
  have hi: "n + 31 + 511 < 512 * z + 512"
    unfolding z_def
    using mod_less_divisor [of 512 "n + 31 + 511"] div_mult_mod_eq [of "n + 31 + 511" 512]
    by linarith
  have lo': "real (512 * z) \<le> real (n + 31 + 511)" using lo by (rule of_nat_mono)
  have "n + 31 \<le> 512 * z" using hi by linarith
  then have hi': "real (n + 31) \<le> real (512 * z)" by (rule of_nat_mono)
  have "\<lceil>(of_nat n + 31) / (512 :: real)\<rceil> = int z"
  proof (rule ceiling_unique)
    show "of_int (int z) - 1 < (of_nat n + 31) / (512 :: real)"
      using lo' by (simp add: field_simps)
    show "(of_nat n + 31) / (512 :: real) \<le> of_int (int z)"
      using hi' by (simp add: field_simps)
  qed
  then show ?thesis by (simp add: spec_ceil_aligned_def z_def)
qed

lemma spec_ceil_aligned_split:
  "spec_ceil_aligned n = ((n + 31) div 512 + (if 512 dvd (n + 31) then 0 else 1)) * 512"
  by (simp only: spec_ceil_aligned_nat div_round_up)

text \<open>
  Claim C3, as stated, fails: the aligned size is \<open>((size + 543) div 512) * 512\<close>, which is
  the spec's \<open>ceil((size+31)/512)*512\<close> only when 512 does not divide \<open>size + 31\<close>. At the
  requested size 481 the constructor gives 1024 and the ceiling formula gives 512.
\<close>

theorem SomasTensor_aligned_size_not_ceil:
  "unat (aligned_size (SomasTensor_ctor 0 0 0 481 kLifeLongNone)) \<noteq> spec_ceil_aligned 481"
  by (simp add: SomasTensor_ctor_def alignment_def alignment_complement_def spec_ceil_aligned_def)

text \<open>
  Claim C3, amended: the constructor's aligned size is 0 for the requested size 0; for a
  requested size \<open>size > 0\<close> with \<open>size + 543 < 2^64\<close> (no wrap-around of \<^verbatim>\<open>size_t\<close>) it is
  \<open>((size + 512 + 31) div 512) * 512\<close>, that is \<open>((size + 31) div 512 + 1) * 512\<close>; this equals
  \<open>ceil((size+31)/512)*512\<close> exactly when 512 does not divide \<open>size + 31\<close>, and is 512 more
  than it otherwise. Size 0 gives 0, size 1 gives 512 and size 513 gives 1024.
\<close>

theorem SomasTensor_aligned_size_formula:
  fixes real_size :: size_t
  shows
  "aligned_size (SomasTensor_ctor i n s 0 l) = 0 \<and>
   aligned_size (SomasTensor_ctor i n s 1 l) = 512 \<and>
   aligned_size (SomasTensor_ctor i n s 513 l) = 1024 \<and>
   (real_size \<noteq> 0 \<and> unat real_size + 543 < 2 ^ 64 \<longrightarrow>
      unat (aligned_size (SomasTensor_ctor i n s real_size l))
        = ((unat real_size + 512 + 31) div 512) * 512 \<and>
      unat (aligned_size (SomasTensor_ctor i n s real_size l))
        = ((unat real_size + 31) div 512 + 1) * 512 \<and>
      (unat (aligned_size (SomasTensor_ctor i n s real_size l)) = spec_ceil_aligned (unat real_size)
         \<longleftrightarrow> \<not> 512 dvd (unat real_size + 31)) \<and>
      (512 dvd (unat real_size + 31) \<longrightarrow>
         unat (aligned_size (SomasTensor_ctor i n s real_size l))
           = spec_ceil_aligned (unat real_size) + 512))"
proof -
  have z: "aligned_size (SomasTensor_ctor i n s 0 l) = 0"
    by (simp add: SomasTensor_ctor_def)
  have one: "aligned_size (SomasTensor_ctor i n s 1 l) = 512"
    by (simp add: SomasTensor_ctor_def alignment_def alignment_complement_def)
  have two: "aligned_size (SomasTensor_ctor i n s 513 l) = 1024"
    by (simp add: SomasTensor_ctor_def alignment_def alignment_complement_def)
  have gen: "unat (aligned_size (SomasTensor_ctor i n s real_size l))
        = ((unat real_size + 512 + 31) div 512) * 512 \<and>
      unat (aligned_size (SomasTensor_ctor i n s real_size l))
        = ((unat real_size + 31) div 512 + 1) * 512 \<and>
      (unat (aligned_size (SomasTensor_ctor i n s real_size l)) = spec_ceil_aligned (unat real_size)
         \<longleftrightarrow> \<not> 512 dvd (unat real_size + 31)) \<and>
      (512 dvd (unat real_size + 31) \<longrightarrow>
         unat (aligned_size (SomasTensor_ctor i n s real_size l))
           = spec_ceil_aligned (unat real_size) + 512)"
    if nz: "real_size \<noteq> 0" and nw: "unat real_size + 543 < 2 ^ 64"
  proof -
    have a: "unat (aligned_size (SomasTensor_ctor i n s real_size l))
               = ((unat real_size + 543) div 512) * 512"
      using nw nz by (rule aligned_size_no_wrap)
    have b: "unat (aligned_size (SomasTensor_ctor i n s real_size l))
               = ((unat real_size + 31) div 512 + 1) * 512"
      by (simp only: a div_543)
    have c: "spec_ceil_aligned (unat real_size)
               = ((unat real_size + 31) div 512 + (if 512 dvd (unat real_size + 31) then 0 else 1)) * 512"
      by (rule spec_ceil_aligned_split)
    have a': "unat (aligned_size (SomasTensor_ctor i n s real_size l))
               = ((unat real_size + 512 + 31) div 512) * 512"
      using a by (simp add: add.assoc)
    show ?thesis
      using a' b c by (cases "512 dvd (unat real_size + 31)") simp_all
  qed
  show ?thesis using z one two gen by blast
qed

theorem SomasTensor_aligned_size_formula_witness:
  "(481 :: size_t) \<noteq> 0 \<and> unat (481 :: size_t) + 543 < 2 ^ 64 \<and>
   unat (aligned_size (SomasTensor_ctor 7 0 0 481 kLifeLongNone)) = 1024 \<and>
   (512::nat) dvd (unat (481 :: size_t) + 31) \<and>
   spec_ceil_aligned (unat (481 :: size_t)) + 512 = 1024"
  using SomasTensor_aligned_size_formula [of 7 0 0 kLifeLongNone 481]
  by (simp add: spec_ceil_aligned_nat)

section \<open>RunnerConfig bounds\<close>

lemma map_size_fmupd:
  "map_size (fmupd k v m) = (if k |\<in>| fmdom m then map_size m else Suc (map_size m))"
  by (simp add: map_size_def fcard_finsert_if)

lemma map_size_fmempty: "map_size fmempty = 0"
  by (simp add: map_size_def)

lemma SetConfigInfo_accept:
  "map_size (config_info d) \<le> 100 \<Longrightarrow> map_size config \<le> 1000 \<Longrightarrow>
   config_info (SetConfigInfo s config d) = fmupd s config (config_info d)"
  by (simp add: SetConfigInfo_def kMaxSectionNum_def kMaxConfigNumPerSection_def)

lemma SetConfigInfo_full:
  "map_size (config_info d) > 100 \<Longrightarrow> SetConfigInfo s config d = d"
  by (simp add: SetConfigInfo_def kMaxSectionNum_def)

lemma SetConfigInfo_too_many_keys:
  "map_size config > 1000 \<Longrightarrow> SetConfigInfo s config d = d"
  by (simp add: SetConfigInfo_def kMaxConfigNumPerSection_def)

lemma set_sections_fresh:
  "distinct secs \<Longrightarrow> map_size (config_info d) + length secs \<le> 101 \<Longrightarrow>
   (\<forall>s \<in> set secs. s |\<notin>| fmdom (config_info d)) \<Longrightarrow> map_size config \<le> 1000 \<Longrightarrow>
   map_size (config_info (set_sections secs config d)) = map_size (config_info d) + length secs \<and>
   (\<forall>s \<in> set secs. fmlookup (config_info (set_sections secs config d)) s = Some config) \<and>
   (\<forall>s. s \<notin> set secs \<longrightarrow>
      fmlookup (config_info (set_sections secs config d)) s = fmlookup (config_info d) s)"
proof (induction secs arbitrary: d)
  case Nil
  then show ?case by (simp add: set_sections_def)
next
  case (Cons a secs)
  let ?d' = "SetConfigInfo a config d"
  have le: "map_size (config_info d) \<le> 100" using Cons.prems(2) by simp
  have step: "config_info ?d' = fmupd a config (config_info d)"
    using le Cons.prems(4) by (rule SetConfigInfo_accept)
  have fresh_a: "a |\<notin>| fmdom (config_info d)" using Cons.prems(3) by simp
  have sz: "map_size (config_info ?d') = Suc (map_size (config_info d))"
    using fresh_a by (simp add: step map_size_fmupd)
  have d1: "distinct secs" and na: "a \<notin> set secs" using Cons.prems(1) by simp_all
  have p2: "map_size (config_info ?d') + length secs \<le> 101" using Cons.prems(2) sz by simp
  have p3: "\<forall>s \<in> set secs. s |\<notin>| fmdom (config_info ?d')"
    using Cons.prems(3) na by (auto simp: step)
  note IH = Cons.IH [OF d1 p2 p3 Cons.prems(4)]
  have unfold: "set_sections (a # secs) config d = set_sections secs config ?d'"
    by (simp add: set_sections_def)
  show ?case
    using IH na sz by (auto simp: unfold step)
qed

lemma section_name_inj: "section_name m = section_name n \<Longrightarrow> m = n"
proof -
  assume "section_name m = section_name n"
  then have "length (section_name m) = length (section_name n)" by simp
  then show "m = n" by (simp add: section_name_def)
qed

lemma distinct_section_names: "distinct (map section_name [0..<k])"
  by (simp add: distinct_map inj_on_def) (metis section_name_inj)

lemma sections_101_state:
  "map_size (config_info (set_sections (map section_name [0..<101]) fmempty RunnerConfig_ctor)) = 101 \<and>
   (\<forall>s \<in> set (map section_name [0..<101]).
      fmlookup (config_info (set_sections (map section_name [0..<101]) fmempty RunnerConfig_ctor)) s
        = Some fmempty)"
proof -
  have "map_size (config_info RunnerConfig_ctor) + length (map section_name [0..<101]) \<le> 101"
    by (simp add: RunnerConfig_ctor_def map_size_fmempty)
  moreover have "\<forall>s \<in> set (map section_name [0..<101]). s |\<notin>| fmdom (config_info RunnerConfig_ctor)"
    by (simp add: RunnerConfig_ctor_def)
  moreover have "map_size (fmempty :: config_section) \<le> 1000" by (simp add: map_size_fmempty)
  ultimately show ?thesis
    using set_sections_fresh [OF distinct_section_names, of RunnerConfig_ctor 101 fmempty]
    by (simp add: RunnerConfig_ctor_def map_size_fmempty)
qed

text \<open>
  Claim C4 against the code: \<^verbatim>\<open>SetConfigInfo\<close> returns early only when the map already
  holds more than \<open>kMaxSectionNum = 100\<close> sections, so the 101st distinct section is still
  stored: after 101 calls with distinct section names, starting from a fresh
  \<^verbatim>\<open>RunnerConfig\<close>, the config map has 101 sections and the 101st is present.
\<close>

theorem SetConfigInfo_101st_section_present:
  "map_size (GetConfigInfo (set_sections (map section_name [0..<101]) fmempty RunnerConfig_ctor)) = 101 \<and>
   fmlookup (GetConfigInfo (set_sections (map section_name [0..<101]) fmempty RunnerConfig_ctor))
     (section_name 100) = Some fmempty"
proof -
  have "section_name 100 \<in> set (map section_name [0..<101])" by simp
  with sections_101_state show ?thesis
    by (simp add: GetConfigInfo_def)
qed

text \<open>Only the 102nd section is dropped, and a section of more than 1000 keys is dropped
  whole; neither call reports anything.\<close>

lemma SetConfigInfo_102nd_section_dropped:
  "SetConfigInfo (section_name 101) config
     (set_sections (map section_name [0..<101]) fmempty RunnerConfig_ctor)
   = set_sections (map section_name [0..<101]) fmempty RunnerConfig_ctor"
  using sections_101_state by (simp add: SetConfigInfo_full)

section \<open>Arithmetic kernels: loops over memory\<close>

lemma for_loop_Suc: "for_loop 0 (Suc n) body s = body n (for_loop 0 n body s)"
  by (simp add: for_loop_def)

lemma for_loop_0: "for_loop 0 0 body s = s"
  by (simp add: for_loop_def)

lemma for_loop_cells:
  fixes upd :: "nat \<Rightarrow> 'a mem \<Rightarrow> 'a mem" and W :: "nat \<Rightarrow> nat set"
  assumes frame: "\<And>i m' a. a \<notin> W i \<Longrightarrow> upd i m' a = m' a"
      and local: "\<And>i m' a. i < n \<Longrightarrow> (\<And>b. (\<And>j. j < i \<Longrightarrow> b \<notin> W j) \<Longrightarrow> m' b = m b) \<Longrightarrow> a \<in> W i
                    \<Longrightarrow> upd i m' a = upd i m a"
      and disj: "\<And>i j. i < n \<Longrightarrow> j < n \<Longrightarrow> i \<noteq> j \<Longrightarrow> W i \<inter> W j = {}"
  shows "k \<le> n \<Longrightarrow>
         (\<forall>a. (\<forall>i<k. a \<notin> W i) \<longrightarrow> for_loop 0 k upd m a = m a) \<and>
         (\<forall>i<k. \<forall>a \<in> W i. for_loop 0 k upd m a = upd i m a)"
proof (induction k)
  case 0
  then show ?case by (simp add: for_loop_0)
next
  case (Suc k)
  let ?mk = "for_loop 0 k upd m"
  have kn: "k < n" and kle: "k \<le> n" using Suc.prems by simp_all
  have out: "\<And>a. (\<And>i. i < k \<Longrightarrow> a \<notin> W i) \<Longrightarrow> ?mk a = m a"
    using Suc.IH [OF kle] by blast
  have done_cells: "\<And>i a. i < k \<Longrightarrow> a \<in> W i \<Longrightarrow> ?mk a = upd i m a"
    using Suc.IH [OF kle] by blast
  have step: "for_loop 0 (Suc k) upd m = upd k ?mk" by (rule for_loop_Suc)
  show ?case
  proof (intro conjI allI impI ballI)
    fix a assume "\<forall>i<Suc k. a \<notin> W i"
    then have "a \<notin> W k" and "\<And>i. i < k \<Longrightarrow> a \<notin> W i" by simp_all
    then show "for_loop 0 (Suc k) upd m a = m a"
      by (simp add: step frame out)
  next
    fix i a assume i: "i < Suc k" and a: "a \<in> W i"
    show "for_loop 0 (Suc k) upd m a = upd i m a"
    proof (cases "i = k")
      case True
      have "upd k ?mk a = upd k m a"
        using kn out a True by (intro local) auto
      then show ?thesis using True by (simp add: step)
    next
      case False
      then have ik: "i < k" using i by simp
      have "W i \<inter> W k = {}" using disj [of i k] ik kn by simp
      then have "a \<notin> W k" using a by auto
      then show ?thesis using done_cells [OF ik a] by (simp add: step frame)
    qed
  qed
qed


lemma elementwise_loop:
  fixes f :: "nat \<Rightarrow> 'a \<Rightarrow> 'a \<Rightarrow> 'a option"
  assumes ro: "\<forall>i<n. \<forall>j<n. input1 + A i \<noteq> out + j \<and> input2 + B i \<noteq> out + j"
  shows "(\<forall>a. (\<forall>i<n. a \<noteq> out + i) \<longrightarrow>
            for_loop 0 n
              (\<lambda>i m'. case f i (m' (input1 + A i)) (m' (input2 + B i)) of
                          Some v \<Rightarrow> m'(out + i := v) | None \<Rightarrow> m') m a = m a) \<and>
         (\<forall>i<n.
            for_loop 0 n
              (\<lambda>i m'. case f i (m' (input1 + A i)) (m' (input2 + B i)) of
                          Some v \<Rightarrow> m'(out + i := v) | None \<Rightarrow> m') m (out + i)
            = (case f i (m (input1 + A i)) (m (input2 + B i)) of
                 Some v \<Rightarrow> v | None \<Rightarrow> m (out + i)))"
proof -
  let ?upd = "\<lambda>i (m' :: 'a mem). case f i (m' (input1 + A i)) (m' (input2 + B i)) of
                          Some v \<Rightarrow> m'(out + i := v) | None \<Rightarrow> m'"
  have frame: "?upd i m' a = m' a" if "a \<notin> {out + i}" for i m' a
    using that by (simp split: option.split)
  have loc: "?upd i m' a = ?upd i m a"
    if i: "i < n" and agree: "\<And>b. (\<And>j. j < i \<Longrightarrow> b \<notin> {out + j}) \<Longrightarrow> m' b = m b" and a: "a \<in> {out + i}"
    for i m' a
  proof -
    have r1: "m' (input1 + A i) = m (input1 + A i)"
      using ro i by (intro agree) simp
    have r2: "m' (input2 + B i) = m (input2 + B i)"
      using ro i by (intro agree) simp
    have r3: "m' (out + i) = m (out + i)"
      by (intro agree) simp
    show ?thesis using a r3 by (simp add: r1 r2 split: option.split)
  qed
  have "(\<forall>a. (\<forall>i<n. a \<notin> {out + i}) \<longrightarrow> for_loop 0 n ?upd m a = m a) \<and>
        (\<forall>i<n. \<forall>a \<in> {out + i}. for_loop 0 n ?upd m a = ?upd i m a)"
  proof (rule for_loop_cells [where n = n])
    show "?upd i m' a = m' a" if "a \<notin> {out + i}" for i m' a
      using that by (rule frame)
    show "?upd i m' a = ?upd i m a"
      if "i < n" and "\<And>b. (\<And>j. j < i \<Longrightarrow> b \<notin> {out + j}) \<Longrightarrow> m' b = m b" and "a \<in> {out + i}"
      for i m' a
      using that by (rule loc)
    show "\<And>i j. i < n \<Longrightarrow> j < n \<Longrightarrow> i \<noteq> j \<Longrightarrow> {out + i} \<inter> {out + j} = {}" by simp
    show "n \<le> n" by simp
  qed
  then show ?thesis by (simp split: option.split)
qed

text \<open>A loop that writes every cell.\<close>

lemma elementwise_loop_total:
  fixes g :: "nat \<Rightarrow> 'a \<Rightarrow> 'a \<Rightarrow> 'a"
  assumes ro: "\<forall>i<n. \<forall>j<n. input1 + A i \<noteq> out + j \<and> input2 + B i \<noteq> out + j"
  shows "(\<forall>a. (\<forall>i<n. a \<noteq> out + i) \<longrightarrow>
            for_loop 0 n (\<lambda>i m'. m'(out + i := g i (m' (input1 + A i)) (m' (input2 + B i)))) m a = m a) \<and>
         (\<forall>i<n.
            for_loop 0 n (\<lambda>i m'. m'(out + i := g i (m' (input1 + A i)) (m' (input2 + B i)))) m (out + i)
            = g i (m (input1 + A i)) (m (input2 + B i)))"
  using elementwise_loop [OF ro, of "\<lambda>i a b. Some (g i a b)" m] by simp

lemma Div_as_loop:
  "Div T quot this input1 input2 out m =
     for_loop 0 (output_size this)
       (\<lambda>i m'. m'(out + i :=
          (\<lambda>i dividend divisor.
              if t_eq T divisor (t_zero T) then real_div_by_zero T dividend
              else quot dividend divisor)
            i (m' (input1 + GetInputPosA (base_iter this) i))
              (m' (input2 + GetInputPosB (base_iter this) i)))) m"
  unfolding Div_def ParallelLaunchAutoSearch_def
  by (rule arg_cong [where f = "\<lambda>b. for_loop 0 (output_size this) b m"])
     (auto simp: Let_def fun_eq_iff real_div_by_zero_def)

lemma Div_cells:
  assumes ro: "reads_outside_output this input1 input2 out" and i: "i < output_size this"
  shows "Div T quot this input1 input2 out m (out + i) =
           (if t_eq T (m (input2 + GetInputPosB (base_iter this) i)) (t_zero T)
            then real_div_by_zero T (m (input1 + GetInputPosA (base_iter this) i))
            else quot (m (input1 + GetInputPosA (base_iter this) i))
                         (m (input2 + GetInputPosB (base_iter this) i)))"
proof -
  have ro': "\<forall>i<output_size this. \<forall>j<output_size this.
        input1 + GetInputPosA (base_iter this) i \<noteq> out + j \<and>
        input2 + GetInputPosB (base_iter this) i \<noteq> out + j"
    using ro by (simp add: reads_outside_output_def)
  show ?thesis
    using elementwise_loop_total [OF ro', of "\<lambda>i dividend divisor.
              if t_eq T divisor (t_zero T) then real_div_by_zero T dividend
              else quot dividend divisor" m] i
    by (simp add: Div_as_loop)
qed

section \<open>Arithmetic kernels: division\<close>

lemma FloorDiv_as_loop:
  "FloorDiv T this input1 input2 out m =
     for_loop 0 (output_size this)
       (\<lambda>i m'. m'(out + i :=
          (\<lambda>i dividend divisor.
              if t_eq T divisor (t_zero T) then real_div_by_zero T dividend
              else t_of_double T (ffloor (fdiv binary64 (t_to_double T dividend) (t_to_double T divisor))))
            i (m' (input1 + GetInputPosA (base_iter this) i))
              (m' (input2 + GetInputPosB (base_iter this) i)))) m"
  unfolding FloorDiv_def ParallelLaunchAutoSearch_def
  by (rule arg_cong [where f = "\<lambda>b. for_loop 0 (output_size this) b m"])
     (auto simp: Let_def fun_eq_iff real_div_by_zero_def)

lemma reads_outside_outputD:
  "reads_outside_output this input1 input2 out \<Longrightarrow>
   \<forall>i<output_size this. \<forall>j<output_size this.
        input1 + GetInputPosA (base_iter this) i \<noteq> out + j \<and>
        input2 + GetInputPosB (base_iter this) i \<noteq> out + j"
  by (simp add: reads_outside_output_def)

lemma FloorDiv_cells:
  assumes ro: "reads_outside_output this input1 input2 out" and i: "i < output_size this"
  shows "FloorDiv T this input1 input2 out m (out + i) =
           (if t_eq T (m (input2 + GetInputPosB (base_iter this) i)) (t_zero T)
            then real_div_by_zero T (m (input1 + GetInputPosA (base_iter this) i))
            else t_of_double T (ffloor (fdiv binary64
                   (t_to_double T (m (input1 + GetInputPosA (base_iter this) i)))
                   (t_to_double T (m (input2 + GetInputPosB (base_iter this) i))))))"
  using elementwise_loop_total [OF reads_outside_outputD [OF ro], of "\<lambda>i dividend divisor.
              if t_eq T divisor (t_zero T) then real_div_by_zero T dividend
              else t_of_double T (ffloor (fdiv binary64 (t_to_double T dividend) (t_to_double T divisor)))" m] i
  by (simp add: FloorDiv_as_loop)

lemma DivNoNan_as_loop:
  "DivNoNan T quot this input1 input2 out m =
     for_loop 0 (output_size this)
       (\<lambda>i m'. m'(out + i :=
          (\<lambda>i dividend divisor.
              if t_eq T divisor (t_zero T) then t_zero T else quot dividend divisor)
            i (m' (input1 + GetInputPosA (base_iter this) i))
              (m' (input2 + GetInputPosB (base_iter this) i)))) m"
  unfolding DivNoNan_def ParallelLaunchAutoSearch_def
  by (rule arg_cong [where f = "\<lambda>b. for_loop 0 (output_size this) b m"])
     (auto simp: Let_def fun_eq_iff)

lemma DivNoNan_cells:
  assumes ro: "reads_outside_output this input1 input2 out" and i: "i < output_size this"
  shows "DivNoNan T quot this input1 input2 out m (out + i) =
           (if t_eq T (m (input2 + GetInputPosB (base_iter this) i)) (t_zero T)
            then t_zero T
            else quot (m (input1 + GetInputPosA (base_iter this) i))
                         (m (input2 + GetInputPosB (base_iter this) i)))"
  using elementwise_loop_total [OF reads_outside_outputD [OF ro], of "\<lambda>i dividend divisor.
              if t_eq T divisor (t_zero T) then t_zero T else quot dividend divisor" m] i
  by (simp add: DivNoNan_as_loop)

lemma ElementRealDiv_as_loop:
  "ElementRealDiv T quot input1 input2 out n delta_1 delta_2 m =
     for_loop 0 n
       (\<lambda>i m'. m'(out + i :=
          (\<lambda>i dividend divisor.
              if t_eq T divisor (t_zero T) then real_div_by_zero T dividend
              else quot dividend divisor)
            i (m' (input1 + i * delta_1)) (m' (input2 + i * delta_2)))) m"
  unfolding ElementRealDiv_def
  by (rule arg_cong [where f = "\<lambda>b. for_loop 0 n b m"])
     (auto simp: Let_def fun_eq_iff real_div_by_zero_def)

lemma RealDiv_as_loop:
  "RealDiv T quot this input1 input2 out m =
     for_loop 0 (output_size this)
       (\<lambda>i m'. m'(out + i :=
          (\<lambda>i dividend divisor.
              if t_eq T divisor (t_zero T) then real_div_by_zero T dividend
              else quot dividend divisor)
            i (m' (input1 + RealDiv_posA this i)) (m' (input2 + RealDiv_posB this i)))) m"
proof -
  consider (same) "input_shape1 this = input_shape2 this"
    | (s0) "input_shape1 this \<noteq> input_shape2 this" "in_elements_num0 this = 1"
    | (s1) "input_shape1 this \<noteq> input_shape2 this" "in_elements_num0 this \<noteq> 1" "in_elements_num1 this = 1"
    | (bc) "input_shape1 this \<noteq> input_shape2 this" "in_elements_num0 this \<noteq> 1" "in_elements_num1 this \<noteq> 1"
    by blast
  then show ?thesis
  proof cases
    case same
    then show ?thesis
      by (simp add: RealDiv_def ParallelLaunchAutoSearch_def ElementRealDiv_as_loop
            RealDiv_posA_def RealDiv_posB_def cong: if_cong)
  next
    case s0
    then show ?thesis
      by (simp add: RealDiv_def ParallelLaunchAutoSearch_def ElementRealDiv_as_loop
            RealDiv_posA_def RealDiv_posB_def cong: if_cong)
  next
    case s1
    then show ?thesis
      by (simp add: RealDiv_def ParallelLaunchAutoSearch_def ElementRealDiv_as_loop
            RealDiv_posA_def RealDiv_posB_def cong: if_cong)
  next
    case bc
    have "RealDiv T quot this input1 input2 out m =
      for_loop 0 (output_size this) (\<lambda>i m'.
          let dividend = m' (input1 + GetInputPosA (base_iter this) i);
              divisor = m' (input2 + GetInputPosB (base_iter this) i);
              zero = t_zero T
          in if t_eq T divisor zero then
               (if t_eq T dividend zero then m'(out + i := t_quiet_NaN T)
                else if t_has_infinity T then
                  m'(out + i := (if t_gt T dividend zero then t_infinity T else t_neg T (t_infinity T)))
                else
                  m'(out + i := (if t_gt T dividend zero then t_max T else t_min T)))
             else m'(out + i := quot dividend divisor)) m"
      using bc by (simp add: RealDiv_def ParallelLaunchAutoSearch_def)
    also have "\<dots> = for_loop 0 (output_size this)
       (\<lambda>i m'. m'(out + i :=
          (\<lambda>i dividend divisor.
              if t_eq T divisor (t_zero T) then real_div_by_zero T dividend
              else quot dividend divisor)
            i (m' (input1 + RealDiv_posA this i)) (m' (input2 + RealDiv_posB this i)))) m"
      using bc
      by (intro arg_cong [where f = "\<lambda>b. for_loop 0 (output_size this) b m"])
         (auto simp: Let_def fun_eq_iff real_div_by_zero_def RealDiv_posA_def RealDiv_posB_def)
    finally show ?thesis .
  qed
qed

lemma RealDiv_reads_outside_outputD:
  "RealDiv_reads_outside_output this input1 input2 out \<Longrightarrow>
   \<forall>i<output_size this. \<forall>j<output_size this.
        input1 + RealDiv_posA this i \<noteq> out + j \<and> input2 + RealDiv_posB this i \<noteq> out + j"
  by (simp add: RealDiv_reads_outside_output_def)

lemma RealDiv_cells:
  assumes ro: "RealDiv_reads_outside_output this input1 input2 out" and i: "i < output_size this"
  shows "RealDiv T quot this input1 input2 out m (out + i) =
           (if t_eq T (m (input2 + RealDiv_posB this i)) (t_zero T)
            then real_div_by_zero T (m (input1 + RealDiv_posA this i))
            else quot (m (input1 + RealDiv_posA this i)) (m (input2 + RealDiv_posB this i)))"
  using elementwise_loop_total [OF RealDiv_reads_outside_outputD [OF ro], of "\<lambda>i dividend divisor.
              if t_eq T divisor (t_zero T) then real_div_by_zero T dividend
              else quot dividend divisor" m] i
  by (simp add: RealDiv_as_loop)

lemma ElementRealDivComplex_as_loop:
  "ElementRealDivComplex T input1 input2 out n delta_1 delta_2 m =
     for_loop 0 n
       (\<lambda>i m'. m'(out + i :=
          (\<lambda>i dividend divisor.
              if t_eq T divisor (t_zero T) then t_quiet_NaN T else t_div T dividend divisor)
            i (m' (input1 + i * delta_1)) (m' (input2 + i * delta_2)))) m"
  unfolding ElementRealDivComplex_def
  by (rule arg_cong [where f = "\<lambda>b. for_loop 0 n b m"])
     (auto simp: Let_def fun_eq_iff)

lemma RealDivComplex_as_loop:
  "RealDivComplex T this input1 input2 out m =
     for_loop 0 (output_size this)
       (\<lambda>i m'. m'(out + i :=
          (\<lambda>i dividend divisor.
              if t_eq T divisor (t_zero T) then t_quiet_NaN T else t_div T dividend divisor)
            i (m' (input1 + RealDiv_posA this i)) (m' (input2 + RealDiv_posB this i)))) m"
proof -
  consider (same) "input_shape1 this = input_shape2 this"
    | (s0) "input_shape1 this \<noteq> input_shape2 this" "in_elements_num0 this = 1"
    | (s1) "input_shape1 this \<noteq> input_shape2 this" "in_elements_num0 this \<noteq> 1" "in_elements_num1 this = 1"
    | (bc) "input_shape1 this \<noteq> input_shape2 this" "in_elements_num0 this \<noteq> 1" "in_elements_num1 this \<noteq> 1"
    by blast
  then show ?thesis
  proof cases
    case same
    then show ?thesis
      by (simp add: RealDivComplex_def ParallelLaunchAutoSearch_def ElementRealDivComplex_as_loop
            RealDiv_posA_def RealDiv_posB_def cong: if_cong)
  next
    case s0
    then show ?thesis
      by (simp add: RealDivComplex_def ParallelLaunchAutoSearch_def ElementRealDivComplex_as_loop
            RealDiv_posA_def RealDiv_posB_def cong: if_cong)
  next
    case s1
    then show ?thesis
      by (simp add: RealDivComplex_def ParallelLaunchAutoSearch_def ElementRealDivComplex_as_loop
            RealDiv_posA_def RealDiv_posB_def cong: if_cong)
  next
    case bc
    have "RealDivComplex T this input1 input2 out m =
      for_loop 0 (output_size this) (\<lambda>i m'.
          let dividend = m' (input1 + GetInputPosA (base_iter this) i);
              divisor = m' (input2 + GetInputPosB (base_iter this) i);
              zero = t_zero T
          in if t_eq T divisor zero then m'(out + i := t_quiet_NaN T)
             else m'(out + i := t_div T dividend divisor)) m"
      using bc by (simp add: RealDivComplex_def ParallelLaunchAutoSearch_def)
    also have "\<dots> = for_loop 0 (output_size this)
       (\<lambda>i m'. m'(out + i :=
          (\<lambda>i dividend divisor.
              if t_eq T divisor (t_zero T) then t_quiet_NaN T else t_div T dividend divisor)
            i (m' (input1 + RealDiv_posA this i)) (m' (input2 + RealDiv_posB this i)))) m"
      using bc
      by (intro arg_cong [where f = "\<lambda>b. for_loop 0 (output_size this) b m"])
         (auto simp: Let_def fun_eq_iff RealDiv_posA_def RealDiv_posB_def)
    finally show ?thesis .
  qed
qed

lemma RealDivComplex_cells:
  assumes ro: "RealDiv_reads_outside_output this input1 input2 out" and i: "i < output_size this"
  shows "RealDivComplex T this input1 input2 out m (out + i) =
           (if t_eq T (m (input2 + RealDiv_posB this i)) (t_zero T)
            then t_quiet_NaN T
            else t_div T (m (input1 + RealDiv_posA this i)) (m (input2 + RealDiv_posB this i)))"
  using elementwise_loop_total [OF RealDiv_reads_outside_outputD [OF ro], of "\<lambda>i dividend divisor.
              if t_eq T divisor (t_zero T) then t_quiet_NaN T else t_div T dividend divisor" m] i
  by (simp add: RealDivComplex_as_loop)

lemma DivComplex_as_loop:
  "DivComplex T this input1 input2 out m =
     for_loop 0 (output_size this)
       (\<lambda>i m'. case (\<lambda>i dividend divisor.
                        if t_eq T divisor (t_zero T)
                        then (if t_eq T dividend (t_zero T) then Some (t_quiet_NaN T) else None)
                        else Some (t_div T dividend divisor))
                     i (m' (input1 + GetInputPosA (base_iter this) i))
                       (m' (input2 + GetInputPosB (base_iter this) i)) of
                   Some v \<Rightarrow> m'(out + i := v) | None \<Rightarrow> m') m"
  unfolding DivComplex_def ParallelLaunchAutoSearch_def
  by (rule arg_cong [where f = "\<lambda>b. for_loop 0 (output_size this) b m"]) (auto simp: Let_def fun_eq_iff)

lemma DivComplex_cells:
  assumes ro: "reads_outside_output this input1 input2 out" and i: "i < output_size this"
  shows "DivComplex T this input1 input2 out m (out + i) =
           (if t_eq T (m (input2 + GetInputPosB (base_iter this) i)) (t_zero T)
            then (if t_eq T (m (input1 + GetInputPosA (base_iter this) i)) (t_zero T)
                  then t_quiet_NaN T else m (out + i))
            else t_div T (m (input1 + GetInputPosA (base_iter this) i))
                         (m (input2 + GetInputPosB (base_iter this) i)))"
  using elementwise_loop [OF reads_outside_outputD [OF ro], of "\<lambda>i dividend divisor.
                        if t_eq T divisor (t_zero T)
                        then (if t_eq T dividend (t_zero T) then Some (t_quiet_NaN T) else None)
                        else Some (t_div T dividend divisor)" m] i
  by (simp add: DivComplex_as_loop)

text \<open>The parts of claim C2 that the code fulfils: for a divisor equal to zero, \<^verbatim>\<open>Div\<close>,
  \<^verbatim>\<open>FloorDiv\<close> and \<^verbatim>\<open>RealDiv\<close> write \<open>real_div_by_zero\<close> of the dividend,
  \<^verbatim>\<open>RealDivComplex\<close> writes the quiet NaN of the type and \<^verbatim>\<open>DivNoNan\<close> writes zero.\<close>

lemma real_zero_divisor_written:
  assumes "i < output_size this"
  shows "reads_outside_output this input1 input2 out \<Longrightarrow>
         t_eq T (m (input2 + GetInputPosB (base_iter this) i)) (t_zero T) \<Longrightarrow>
         Div T quot this input1 input2 out m (out + i)
           = real_div_by_zero T (m (input1 + GetInputPosA (base_iter this) i))"
    and "reads_outside_output this input1 input2 out \<Longrightarrow>
         t_eq T (m (input2 + GetInputPosB (base_iter this) i)) (t_zero T) \<Longrightarrow>
         FloorDiv T this input1 input2 out m (out + i)
           = real_div_by_zero T (m (input1 + GetInputPosA (base_iter this) i))"
    and "RealDiv_reads_outside_output this input1 input2 out \<Longrightarrow>
         t_eq T (m (input2 + RealDiv_posB this i)) (t_zero T) \<Longrightarrow>
         RealDiv T quot this input1 input2 out m (out + i)
           = real_div_by_zero T (m (input1 + RealDiv_posA this i))"
  using assms by (simp_all add: Div_cells FloorDiv_cells RealDiv_cells)

lemma other_zero_divisor_written:
  assumes "i < output_size this"
  shows "RealDiv_reads_outside_output this input1 input2 out \<Longrightarrow>
         t_eq T (m (input2 + RealDiv_posB this i)) (t_zero T) \<Longrightarrow>
         RealDivComplex T this input1 input2 out m (out + i) = t_quiet_NaN T"
    and "reads_outside_output this input1 input2 out \<Longrightarrow>
         t_eq T (m (input2 + GetInputPosB (base_iter this) i)) (t_zero T) \<Longrightarrow>
         DivNoNan T quot this input1 input2 out m (out + i) = t_zero T"
  using assms by (simp_all add: RealDivComplex_cells DivNoNan_cells)

lemma real_div_by_zero_float32:
  "real_div_by_zero (float32_type nn) (Fin 0) = NaN"
  "x \<noteq> 0 \<Longrightarrow> real_div_by_zero (float32_type nn) (Fin x) = (if 0 < x then PInf else NInf)"
  "real_div_by_zero (float32_type nn) PInf = PInf"
  "real_div_by_zero (float32_type nn) NInf = NInf"
  by (simp_all add: real_div_by_zero_def float32_type_def fgt_def)

lemma real_div_by_zero_int32:
  "real_div_by_zero int32_type d =
     (if d = 0 then 0 else if 0 < sint d then word_of_int (2 ^ 31 - 1) else word_of_int (- (2 ^ 31)))"
  by (simp add: real_div_by_zero_def int32_type_def)

lemma kernel_names_distinct:
  "kMul \<noteq> kAssignAdd" "kMul \<noteq> kAssignSub" "kDiv \<noteq> kAssignAdd" "kDiv \<noteq> kAssignSub"
  "kAssignAdd \<noteq> kAssignSub"
  by (simp_all add: kMul_def kAssignAdd_def kAssignSub_def kDiv_def)


text \<open>
  Claim C2 against the code: in \<^verbatim>\<open>DivComplex\<close> (the kernel \<^verbatim>\<open>Div\<close> at a complex dtype), a
  position whose divisor is zero and whose dividend is not zero is left unwritten: the
  output cell keeps what it held before the kernel ran, where the claim (and the sibling
  \<^verbatim>\<open>RealDivComplex\<close>) has the quiet NaN.
\<close>

theorem DivComplex_zero_divisor_unwritten:
  assumes ro: "reads_outside_output this input1 input2 out"
      and i: "i < output_size this"
      and name: "kernel_name this = kDiv"
      and z: "t_eq T (m (input2 + GetInputPosB (base_iter this) i)) (t_zero T)"
      and nz: "\<not> t_eq T (m (input1 + GetInputPosA (base_iter this) i)) (t_zero T)"
  shows "\<exists>m'. RunFunc T (InitComputeFunc_complex T (kernel_name this)) this input1 input2 out m = Some (True, m')
              \<and> m' (out + i) = m (out + i)"
proof -
  have init: "InitComputeFunc_complex T (kernel_name this) = Func (DivComplex T)"
    by (simp add: name InitComputeFunc_complex_def kDiv_def kAssignAdd_def kAssignSub_def
          kSquaredDifference_def kSub_def)
  have "output_size this \<noteq> 0" using i by simp
  then have "RunFunc T (InitComputeFunc_complex T (kernel_name this)) this input1 input2 out m
               = Some (True, DivComplex T this input1 input2 out m)"
    by (simp add: RunFunc_def init) (simp add: name kernel_names_distinct)
  moreover have "DivComplex T this input1 input2 out m (out + i) = m (out + i)"
    using z nz by (simp add: DivComplex_cells [OF ro i])
  ultimately show ?thesis by simp
qed


theorem DivComplex_zero_divisor_unwritten_witness:
  "reads_outside_output (vector_kernel kDiv 1) 0 1 2 \<and>
   kernel_name (vector_kernel kDiv 1) = kDiv \<and>
   t_eq (complex64_type complex64_mul complex64_div (NaN, NaN)) (Fin 0, Fin 0)
        (t_zero (complex64_type complex64_mul complex64_div (NaN, NaN))) \<and>
   \<not> t_eq (complex64_type complex64_mul complex64_div (NaN, NaN)) (Fin 1, Fin 0)
          (t_zero (complex64_type complex64_mul complex64_div (NaN, NaN))) \<and>
   (\<exists>m'. RunFunc (complex64_type complex64_mul complex64_div (NaN, NaN))
             (InitComputeFunc_complex (complex64_type complex64_mul complex64_div (NaN, NaN)) kDiv)
             (vector_kernel kDiv 1) 0 1 2
             (\<lambda>a. if a = 0 then (Fin 1, Fin 0) else if a = 1 then (Fin 0, Fin 0) else (Fin 7, Fin 0))
           = Some (True, m') \<and> m' 2 = (Fin 7, Fin 0))"
proof -
  let ?T = "complex64_type complex64_mul complex64_div (NaN, NaN)"
  let ?K = "vector_kernel kDiv 1"
  let ?m = "\<lambda>a::nat. if a = 0 then (Fin 1, Fin 0) else if a = 1 then (Fin 0, Fin 0) else (Fin 7, Fin 0)"
  have ro: "reads_outside_output ?K 0 1 2"
    by (simp add: reads_outside_output_def vector_kernel_def)
  have i: "0 < output_size ?K" by (simp add: vector_kernel_def)
  have name: "kernel_name ?K = kDiv" by (simp add: vector_kernel_def)
  have z: "t_eq ?T (?m (1 + GetInputPosB (base_iter ?K) 0)) (t_zero ?T)"
    by (simp add: vector_kernel_def complex64_type_def)
  have nz: "\<not> t_eq ?T (?m (0 + GetInputPosA (base_iter ?K) 0)) (t_zero ?T)"
    by (simp add: vector_kernel_def complex64_type_def)
  have z': "t_eq ?T (Fin 0, Fin 0) (t_zero ?T)" by (simp add: complex64_type_def)
  have nz': "\<not> t_eq ?T (Fin 1, Fin 0) (t_zero ?T)" by (simp add: complex64_type_def)
  from DivComplex_zero_divisor_unwritten [OF ro i name z nz]
  obtain m' where "RunFunc ?T (InitComputeFunc_complex ?T (kernel_name ?K)) ?K 0 1 2 ?m = Some (True, m')"
    and "m' (2 + 0) = ?m (2 + 0)"
    by blast
  then show ?thesis using ro name z' nz' by (simp add: name)
qed

section \<open>Arithmetic kernels: Mul at bool\<close>

lemma Mul_bool_as_loop:
  "Mul bool_type this input1 input2 out m =
     for_loop 0 (output_size this)
       (\<lambda>i m'. m'(out + i :=
          (\<lambda>i a b. a \<and> b)
            i (m' (input1 + GetInputPosA (base_iter this) i))
              (m' (input2 + GetInputPosB (base_iter this) i)))) m"
  by (simp add: Mul_def bool_type_def ParallelLaunchAutoSearch_def)

lemma Mul_bool_cells:
  assumes ro: "reads_outside_output this input1 input2 out"
  shows "(\<forall>a. (\<forall>i<output_size this. a \<noteq> out + i) \<longrightarrow> Mul bool_type this input1 input2 out m a = m a) \<and>
         (\<forall>i<output_size this. Mul bool_type this input1 input2 out m (out + i)
            = (m (input1 + GetInputPosA (base_iter this) i) \<and> m (input2 + GetInputPosB (base_iter this) i)))"
  using elementwise_loop_total [OF reads_outside_outputD [OF ro], of "\<lambda>i a b. a \<and> b" m]
  by (simp add: Mul_bool_as_loop)


text \<open>
  Claim C10: \<^verbatim>\<open>Mul\<close> is registered for the signature (Bool, Bool, Bool), and for
  \<^verbatim>\<open>T = bool\<close> the kernel runs the broadcast path, on which every output element is the
  logical AND of the two input elements the iterator selects; nothing outside the output
  buffer changes. (The cells read are outside the output buffer.)
\<close>

theorem Mul_bool_logical_and:
  assumes ro: "reads_outside_output this input1 input2 out" and name: "kernel_name this = kMul"
  shows "(kNumberTypeBool, kNumberTypeBool, kNumberTypeBool) \<in> set kernel_attr_list_Mul \<and>
         (\<exists>m'. RunFunc bool_type (InitComputeFunc_real bool_type (kernel_name this)) this input1 input2 out m
                  = Some (True, m') \<and>
               (\<forall>i<output_size this.
                  m' (out + i) = (m (input1 + GetInputPosA (base_iter this) i)
                                  \<and> m (input2 + GetInputPosB (base_iter this) i))) \<and>
               (\<forall>a. (\<forall>i<output_size this. a \<noteq> out + i) \<longrightarrow> m' a = m a))"
proof -
  have reg: "(kNumberTypeBool, kNumberTypeBool, kNumberTypeBool) \<in> set kernel_attr_list_Mul"
    by (simp add: kernel_attr_list_Mul_def)
  have init: "InitComputeFunc_real bool_type (kernel_name this) = Func (Mul bool_type)"
    by (simp add: name InitComputeFunc_real_def kMul_def kAssignAdd_def kAssignSub_def kAdd_def kAddV2_def kSub_def)
  show ?thesis
  proof (cases "output_size this = 0")
    case True
    then have "RunFunc bool_type (InitComputeFunc_real bool_type (kernel_name this)) this input1 input2 out m
                 = Some (True, m)"
      by (simp add: RunFunc_def)
    then show ?thesis using reg True by simp
  next
    case False
    then have "RunFunc bool_type (InitComputeFunc_real bool_type (kernel_name this)) this input1 input2 out m
                 = Some (True, Mul bool_type this input1 input2 out m)"
      by (simp add: RunFunc_def init) (simp add: name kernel_names_distinct)
    then show ?thesis using reg Mul_bool_cells [OF ro, of m] by simp
  qed
qed


theorem Mul_bool_logical_and_witness:
  "reads_outside_output (vector_kernel kMul 2) 0 2 4 \<and>
   kernel_name (vector_kernel kMul 2) = kMul \<and>
   (\<exists>m'. RunFunc bool_type (InitComputeFunc_real bool_type kMul) (vector_kernel kMul 2) 0 2 4
             (\<lambda>a. a = 0 \<or> a = 2 \<or> a = 3) = Some (True, m') \<and>
          m' 4 = True \<and> m' 5 = False)"
proof -
  have ro: "reads_outside_output (vector_kernel kMul 2) 0 2 4"
    by (simp add: reads_outside_output_def vector_kernel_def)
  have name: "kernel_name (vector_kernel kMul 2) = kMul"
    by (simp add: vector_kernel_def)
  from Mul_bool_logical_and [OF ro name, of "\<lambda>a. a = 0 \<or> a = 2 \<or> a = 3"]
  obtain m' where run: "RunFunc bool_type (InitComputeFunc_real bool_type (kernel_name (vector_kernel kMul 2)))
               (vector_kernel kMul 2) 0 2 4 (\<lambda>a. a = 0 \<or> a = 2 \<or> a = 3) = Some (True, m')"
    and cells: "\<forall>i<output_size (vector_kernel kMul 2).
                  m' (4 + i) = ((\<lambda>a. a = 0 \<or> a = 2 \<or> a = 3) (0 + GetInputPosA (base_iter (vector_kernel kMul 2)) i)
                                  \<and> (\<lambda>a. a = 0 \<or> a = 2 \<or> a = 3) (2 + GetInputPosB (base_iter (vector_kernel kMul 2)) i))"
    by blast
  have "m' (4 + 0) = True" using cells [rule_format, of 0] by (simp add: vector_kernel_def)
  moreover have "m' (4 + 1) = False" using cells [rule_format, of 1] by (simp add: vector_kernel_def)
  ultimately show ?thesis using ro name run by (simp add: name)
qed

section \<open>Arithmetic kernels: AssignAdd and AssignSub\<close>

lemma AssignAdd_cells:
  assumes bd: "buffers_disjoint (output_size this) input1 input2 out"
  shows "\<forall>i<output_size this.
           AssignAdd T this input1 input2 out m (input1 + i) = t_add T (m (input1 + i)) (m (input2 + i)) \<and>
           AssignAdd T this input1 input2 out m (out + i) = t_add T (m (input1 + i)) (m (input2 + i))"
proof -
  let ?n = "output_size this"
  let ?W = "\<lambda>i. {out + i, input1 + i}"
  let ?upd = "\<lambda>i (m' :: 'a mem).
       let m1 = m'(out + i := t_add T (m' (input1 + i)) (m' (input2 + i)))
       in m1(input1 + i := m1 (out + i))"
  have d: "input1 + i \<noteq> out + j" "input2 + i \<noteq> out + j" "input2 + i \<noteq> input1 + j"
    if "i < ?n" "j < ?n" for i j
    using bd that by (simp_all add: buffers_disjoint_def)
  have eq: "AssignAdd T this input1 input2 out m = for_loop 0 ?n ?upd m"
    by (simp add: AssignAdd_def ParallelLaunchAutoSearch_def)
  have frame: "?upd i m' a = m' a" if "a \<notin> ?W i" for i m' a
    using that by (simp add: Let_def)
  have loc: "?upd i m' a = ?upd i m a"
    if i: "i < ?n" and agree: "\<And>b. (\<And>j. j < i \<Longrightarrow> b \<notin> ?W j) \<Longrightarrow> m' b = m b" and a: "a \<in> ?W i"
    for i m' a
  proof -
    have r1: "m' (input1 + i) = m (input1 + i)"
    proof (rule agree)
      fix j assume "j < i"
      then have "j < ?n" "i \<noteq> j" using i by simp_all
      then show "input1 + i \<notin> ?W j" using d(1) [OF i \<open>j < ?n\<close>] by simp
    qed
    have r2: "m' (input2 + i) = m (input2 + i)"
    proof (rule agree)
      fix j assume "j < i"
      then have "j < ?n" using i by simp
      then show "input2 + i \<notin> ?W j" using d(2) [OF i \<open>j < ?n\<close>] d(3) [OF i \<open>j < ?n\<close>] by simp
    qed
    show ?thesis using a by (auto simp: Let_def r1 r2)
  qed
  have disj: "?W i \<inter> ?W j = {}" if "i < ?n" "j < ?n" "i \<noteq> j" for i j
    using that d(1) [of i j] d(1) [of j i] by auto
  have res: "(\<forall>a. (\<forall>i<?n. a \<notin> ?W i) \<longrightarrow> for_loop 0 ?n ?upd m a = m a) \<and>
        (\<forall>i<?n. \<forall>a \<in> ?W i. for_loop 0 ?n ?upd m a = ?upd i m a)"
  proof (rule for_loop_cells [where n = ?n])
    show "?upd i m' a = m' a" if "a \<notin> ?W i" for i m' a
      using that by (rule frame)
    show "?upd i m' a = ?upd i m a"
      if "i < ?n" and "\<And>b. (\<And>j. j < i \<Longrightarrow> b \<notin> ?W j) \<Longrightarrow> m' b = m b" and "a \<in> ?W i"
      for i m' a
      using that by (rule loc)
    show "?W i \<inter> ?W j = {}" if "i < ?n" "j < ?n" "i \<noteq> j" for i j
      using that by (rule disj)
    show "?n \<le> ?n" by simp
  qed
  show ?thesis
  proof (intro allI impI)
    fix i assume i: "i < ?n"
    have a: "for_loop 0 ?n ?upd m (input1 + i) = ?upd i m (input1 + i)"
      using res i by blast
    have b: "for_loop 0 ?n ?upd m (out + i) = ?upd i m (out + i)"
      using res i by blast
    have ne: "out + i \<noteq> input1 + i" using d(1) [OF i i] by simp
    have va: "?upd i m (input1 + i) = t_add T (m (input1 + i)) (m (input2 + i))"
      by (simp add: Let_def)
    have vb: "?upd i m (out + i) = t_add T (m (input1 + i)) (m (input2 + i))"
      using ne by (simp add: Let_def)
    show "AssignAdd T this input1 input2 out m (input1 + i) = t_add T (m (input1 + i)) (m (input2 + i)) \<and>
           AssignAdd T this input1 input2 out m (out + i) = t_add T (m (input1 + i)) (m (input2 + i))"
      by (simp only: eq a b va vb)
  qed
qed

lemma AssignSub_as_loop:
  assumes ip: "nnacl_AssignSubOpt_in_place T"
  shows "AssignSub T this input1 input2 out m =
           for_loop 0 (output_size this)
             (\<lambda>i m'. m'(input1 + i := t_sub T (m' (input1 + i)) (m' (input2 + i)))) m"
proof (cases "float_fast T")
  case None
  then show ?thesis by (simp add: AssignSub_def ParallelLaunchAutoSearch_def)
next
  case (Some nn)
  then have "AssignSubOpt nn m input1 input2 (output_size this)
               = for_loop 0 (output_size this)
                   (\<lambda>i m'. m'(input1 + i := t_sub T (m' (input1 + i)) (m' (input2 + i)))) m"
    using ip by (simp add: nnacl_AssignSubOpt_in_place_def)
  then show ?thesis using Some by (simp add: AssignSub_def ParallelLaunchAutoSearch_def)
qed

lemma AssignSub_cells:
  assumes ip: "nnacl_AssignSubOpt_in_place T"
      and d: "\<forall>i<output_size this. \<forall>j<output_size this. input2 + i \<noteq> input1 + j"
  shows "(\<forall>i<output_size this.
           AssignSub T this input1 input2 out m (input1 + i) = t_sub T (m (input1 + i)) (m (input2 + i))) \<and>
         (\<forall>a. (\<forall>i<output_size this. a \<noteq> input1 + i) \<longrightarrow> AssignSub T this input1 input2 out m a = m a)"
proof -
  let ?n = "output_size this"
  let ?W = "\<lambda>i. {input1 + i}"
  let ?upd = "\<lambda>i (m' :: 'a mem). m'(input1 + i := t_sub T (m' (input1 + i)) (m' (input2 + i)))"
  have eq: "AssignSub T this input1 input2 out m = for_loop 0 ?n ?upd m"
    by (rule AssignSub_as_loop [OF ip])
  have loc: "?upd i m' a = ?upd i m a"
    if i: "i < ?n" and agree: "\<And>b. (\<And>j. j < i \<Longrightarrow> b \<notin> ?W j) \<Longrightarrow> m' b = m b" and a: "a \<in> ?W i"
    for i m' a
  proof -
    have r1: "m' (input1 + i) = m (input1 + i)"
      by (rule agree) simp
    have r2: "m' (input2 + i) = m (input2 + i)"
    proof (rule agree)
      fix j assume "j < i"
      then have "j < ?n" using i by simp
      then show "input2 + i \<notin> ?W j" using d i by simp
    qed
    show ?thesis using a by (simp add: r1 r2)
  qed
  have res: "(\<forall>a. (\<forall>i<?n. a \<notin> ?W i) \<longrightarrow> for_loop 0 ?n ?upd m a = m a) \<and>
        (\<forall>i<?n. \<forall>a \<in> ?W i. for_loop 0 ?n ?upd m a = ?upd i m a)"
  proof (rule for_loop_cells [where n = ?n])
    show "?upd i m' a = m' a" if "a \<notin> ?W i" for i m' a
      using that by simp
    show "?upd i m' a = ?upd i m a"
      if "i < ?n" and "\<And>b. (\<And>j. j < i \<Longrightarrow> b \<notin> ?W j) \<Longrightarrow> m' b = m b" and "a \<in> ?W i"
      for i m' a
      using that by (rule loc)
    show "?W i \<inter> ?W j = {}" if "i < ?n" "j < ?n" "i \<noteq> j" for i j
      using that by simp
    show "?n \<le> ?n" by simp
  qed
  then show ?thesis by (simp add: eq)
qed

text \<open>\<^verbatim>\<open>AssignSub\<close> never assigns through \<^verbatim>\<open>out\<close>: the output holds the difference because
  it is the buffer of \<^verbatim>\<open>input1\<close>.\<close>

lemma AssignSub_ignores_out:
  "AssignSub T this input1 input2 out = AssignSub T this input1 input2 out'"
  by (simp add: AssignSub_def)


text \<open>
  Claim C5: at every position, \<^verbatim>\<open>AssignAdd\<close> leaves \<open>input1[i] + input2[i]\<close> in \<^verbatim>\<open>input1[i]\<close>
  and in \<^verbatim>\<open>out[i]\<close>, and \<^verbatim>\<open>AssignSub\<close> leaves \<open>input1[i] - input2[i]\<close> in \<^verbatim>\<open>input1[i]\<close> and
  in \<^verbatim>\<open>out[i]\<close>. The buffers are as the registrations have them: for \<^verbatim>\<open>AssignAdd\<close>, none
  of whose signatures has an in-place annotation, three buffers that do not overlap; for
  \<^verbatim>\<open>AssignSub\<close>, all of whose signatures carry \<^verbatim>\<open>AddOutInRef(0, 0)\<close>, an output that is the
  buffer of \<^verbatim>\<open>input1\<close>, and an \<^verbatim>\<open>input2\<close> apart from it. (For \<^verbatim>\<open>T = float\<close> the subtraction
  is the nnacl routine, taken to subtract in place.)
\<close>

theorem Assign_in_place:
  "(\<forall>attr \<in> set kernel_attr_list_AssignAdd. snd attr = None) \<and>
   (\<forall>attr \<in> set kernel_attr_list_AssignSub. snd attr = Some (0, 0)) \<and>
   (kernel_name this = kAssignAdd \<and> buffers_disjoint (output_size this) input1 input2 out \<longrightarrow>
      (\<exists>m'. RunFunc T cf this input1 input2 out m = Some (True, m') \<and>
         (\<forall>i<output_size this.
            m' (input1 + i) = t_add T (m (input1 + i)) (m (input2 + i)) \<and>
            m' (out + i) = t_add T (m (input1 + i)) (m (input2 + i))))) \<and>
   (kernel_name this = kAssignSub \<and> out = input1 \<and> nnacl_AssignSubOpt_in_place T \<and>
      (\<forall>i<output_size this. \<forall>j<output_size this. input2 + i \<noteq> input1 + j) \<longrightarrow>
      (\<exists>m'. RunFunc T cf this input1 input2 out m = Some (True, m') \<and>
         (\<forall>i<output_size this.
            m' (input1 + i) = t_sub T (m (input1 + i)) (m (input2 + i)) \<and>
            m' (out + i) = t_sub T (m (input1 + i)) (m (input2 + i))) \<and>
         (\<forall>a. (\<forall>i<output_size this. a \<noteq> input1 + i) \<longrightarrow> m' a = m a)))"
proof (intro conjI impI)
  show "\<forall>attr \<in> set kernel_attr_list_AssignAdd. snd attr = None"
    by (simp add: kernel_attr_list_AssignAdd_def)
  show "\<forall>attr \<in> set kernel_attr_list_AssignSub. snd attr = Some (0, 0)"
    by (simp add: kernel_attr_list_AssignSub_def)
next
  assume h: "kernel_name this = kAssignAdd \<and> buffers_disjoint (output_size this) input1 input2 out"
  show "\<exists>m'. RunFunc T cf this input1 input2 out m = Some (True, m') \<and>
         (\<forall>i<output_size this.
            m' (input1 + i) = t_add T (m (input1 + i)) (m (input2 + i)) \<and>
            m' (out + i) = t_add T (m (input1 + i)) (m (input2 + i)))"
  proof (cases "output_size this = 0")
    case True
    then show ?thesis by (simp add: RunFunc_def)
  next
    case False
    then have "RunFunc T cf this input1 input2 out m = Some (True, AssignAdd T this input1 input2 out m)"
      using h by (simp add: RunFunc_def)
    then show ?thesis using AssignAdd_cells [of this input1 input2 out T m] h by simp
  qed
next
  assume h: "kernel_name this = kAssignSub \<and> out = input1 \<and> nnacl_AssignSubOpt_in_place T \<and>
      (\<forall>i<output_size this. \<forall>j<output_size this. input2 + i \<noteq> input1 + j)"
  show "\<exists>m'. RunFunc T cf this input1 input2 out m = Some (True, m') \<and>
         (\<forall>i<output_size this.
            m' (input1 + i) = t_sub T (m (input1 + i)) (m (input2 + i)) \<and>
            m' (out + i) = t_sub T (m (input1 + i)) (m (input2 + i))) \<and>
         (\<forall>a. (\<forall>i<output_size this. a \<noteq> input1 + i) \<longrightarrow> m' a = m a)"
  proof (cases "output_size this = 0")
    case True
    then show ?thesis by (simp add: RunFunc_def)
  next
    case False
    then have "RunFunc T cf this input1 input2 out m = Some (True, AssignSub T this input1 input2 out m)"
      using h by (simp add: RunFunc_def kernel_names_distinct [symmetric])
    then show ?thesis using AssignSub_cells [of T this input2 input1 out m] h by simp
  qed
qed

theorem Assign_in_place_witness:
  "kernel_name (vector_kernel kAssignAdd 1) = kAssignAdd \<and> buffers_disjoint 1 0 1 2 \<and>
   (\<exists>m'. RunFunc int32_type (InitComputeFunc_real int32_type kAssignAdd) (vector_kernel kAssignAdd 1) 0 1 2
             (\<lambda>a. if a = 0 then 5 else if a = 1 then 3 else 9) = Some (True, m') \<and>
          m' 0 = 8 \<and> m' 2 = 8) \<and>
   kernel_name (vector_kernel kAssignSub 1) = kAssignSub \<and> nnacl_AssignSubOpt_in_place int32_type \<and>
   (\<exists>m'. RunFunc int32_type (InitComputeFunc_real int32_type kAssignSub) (vector_kernel kAssignSub 1) 0 1 0
             (\<lambda>a. if a = 0 then 5 else if a = 1 then 3 else 9) = Some (True, m') \<and>
          m' 0 = 2 \<and> m' 1 = 3) \<and>
   snd (kernel_attr_list_AssignSub ! 4) = Some (0, 0)"
proof -
  let ?m = "\<lambda>a::nat. if a = 0 then 5 else if a = 1 then 3 else (9 :: 32 word)"
  let ?A = "vector_kernel kAssignAdd 1"
  let ?S = "vector_kernel kAssignSub 1"
  have nA: "kernel_name ?A = kAssignAdd" and nS: "kernel_name ?S = kAssignSub"
    by (simp_all add: vector_kernel_def)
  have bd: "buffers_disjoint 1 0 1 2" by (simp add: buffers_disjoint_def)
  have bd': "buffers_disjoint (output_size ?A) 0 1 2" using bd by (simp add: vector_kernel_def)
  have ip: "nnacl_AssignSubOpt_in_place int32_type"
    by (simp add: nnacl_AssignSubOpt_in_place_def int32_type_def)
  have d: "\<forall>i<output_size ?S. \<forall>j<output_size ?S. (1::nat) + i \<noteq> 0 + j"
    by (simp add: vector_kernel_def)
  from Assign_in_place [where this = ?A and ?input1.0 = 0 and ?input2.0 = 1 and out = 2
      and T = int32_type and cf = "InitComputeFunc_real int32_type kAssignAdd" and m = ?m] nA bd'
  obtain ma where ra: "RunFunc int32_type (InitComputeFunc_real int32_type kAssignAdd) ?A 0 1 2 ?m = Some (True, ma)"
    and ca: "\<forall>i<output_size ?A. ma (0 + i) = t_add int32_type (?m (0 + i)) (?m (1 + i)) \<and>
                ma (2 + i) = t_add int32_type (?m (0 + i)) (?m (1 + i))"
    by blast
  from Assign_in_place [where this = ?S and ?input1.0 = 0 and ?input2.0 = 1 and out = 0
      and T = int32_type and cf = "InitComputeFunc_real int32_type kAssignSub" and m = ?m] nS ip d
  obtain ms where rs: "RunFunc int32_type (InitComputeFunc_real int32_type kAssignSub) ?S 0 1 0 ?m = Some (True, ms)"
    and cs: "\<forall>i<output_size ?S. ms (0 + i) = t_sub int32_type (?m (0 + i)) (?m (1 + i))"
    and fs: "\<forall>a. (\<forall>i<output_size ?S. a \<noteq> 0 + i) \<longrightarrow> ms a = ?m a"
    by blast
  have a0: "ma 0 = 8" and a2: "ma 2 = 8"
    using ca [rule_format, of 0] by (simp_all add: vector_kernel_def int32_type_def)
  have s0: "ms 0 = 2"
    using cs [rule_format, of 0] by (simp add: vector_kernel_def int32_type_def)
  have s1: "ms 1 = 3"
    using fs [rule_format, of 1] by (simp add: vector_kernel_def)
  have reg: "snd (kernel_attr_list_AssignSub ! 4) = Some (0, 0)"
    by (simp add: kernel_attr_list_AssignSub_def)
  show ?thesis using nA nS bd ip ra rs a0 a2 s0 s1 reg by simp
qed

section \<open>Floating point: rounding of integers and of integer quotients\<close>

text \<open>\<open>pow2\<close> is the integer power of two; \<open>ilog2 x\<close> is the binary exponent of
  \<open>x > 0\<close>.\<close>

lemma pow2_powi: "pow2 e = (2::real) powi e"
  by (simp add: pow2_def power_int_def power_one_over inverse_eq_divide)

lemma pow2_pos: "0 < pow2 e"
  by (simp add: pow2_powi)

lemma pow2_add: "pow2 (a + b) = pow2 a * pow2 b"
  by (simp add: pow2_powi power_int_add)

lemma pow2_mono: "a \<le> b \<Longrightarrow> pow2 a \<le> pow2 b"
  by (simp add: pow2_powi power_int_increasing)

lemma pow2_nat: "pow2 (int n) = 2 ^ n"
  by (simp add: pow2_def)

lemma bit_length_bounds:
  "0 < n \<Longrightarrow> 2 ^ (bit_length n - 1) \<le> n \<and> n < 2 ^ bit_length n"
proof (induction n rule: bit_length.induct)
  case (1 n)
  show ?case
  proof (cases "n div 2 = 0")
    case True
    then have "n = 1" using 1(2) by linarith
    then show ?thesis by (simp add: bit_length.simps)
  next
    case False
    then have ih: "2 ^ (bit_length (n div 2) - 1) \<le> n div 2 \<and> n div 2 < 2 ^ bit_length (n div 2)"
      using 1 by simp
    have bl: "bit_length n = Suc (bit_length (n div 2))" using 1(2) by (simp add: bit_length.simps)
    obtain b where b: "bit_length (n div 2) = Suc b"
      using False by (cases "bit_length (n div 2)") (simp_all add: bit_length.simps)
    from ih b have "2 ^ b \<le> n div 2" "n div 2 < 2 * 2 ^ b" by simp_all
    then have "2 * 2 ^ b \<le> n" "n < 2 * (2 * 2 ^ b)" by linarith+
    then show ?thesis by (simp add: bl b)
  qed
qed

lemma ilog2_bounds:
  assumes "0 < x"
  shows "pow2 (ilog2 x) \<le> x \<and> x < 2 * pow2 (ilog2 x)"
proof (cases "1 \<le> x")
  case True
  let ?n = "nat \<lfloor>x\<rfloor>"
  have n: "0 < ?n" using True by (simp add: zero_less_floor)
  obtain b where b: "bit_length ?n = Suc b"
    using n by (cases "bit_length ?n") (simp_all add: bit_length.simps)
  have e: "ilog2 x = int b" using True by (simp add: ilog2_def b)
  from bit_length_bounds [OF n] b have lo: "2 ^ b \<le> ?n" and hi: "?n < 2 * 2 ^ b" by simp_all
  have "real (2 ^ b) \<le> real ?n" using lo by (rule of_nat_mono)
  then have lo': "(2::real) ^ b \<le> real ?n" by simp
  have "Suc ?n \<le> 2 * 2 ^ b" using hi by simp
  then have "real (Suc ?n) \<le> real (2 * 2 ^ b)" by (rule of_nat_mono)
  then have hi': "real ?n + 1 \<le> 2 * 2 ^ b" by simp
  have x1: "real ?n \<le> x" using True by linarith
  have x2: "x < real ?n + 1" using True by linarith
  have "pow2 (ilog2 x) = 2 ^ b" by (simp add: e pow2_nat)
  moreover have "2 ^ b \<le> x" using lo' x1 by linarith
  moreover have "x < 2 * 2 ^ b" using hi' x2 by linarith
  ultimately show ?thesis by simp
next
  case False
  let ?m = "nat (\<lceil>1 / x\<rceil> - 1)"
  have inv: "1 < 1 / x" using False assms by simp
  then have c: "2 \<le> \<lceil>1 / x\<rceil>" by linarith
  then have m: "0 < ?m" by simp
  have m1: "real ?m < 1 / x" using c by linarith
  have m2: "1 / x \<le> real ?m + 1" using c by linarith
  obtain b where b: "bit_length ?m = Suc b"
    using m by (cases "bit_length ?m") (simp_all add: bit_length.simps)
  from bit_length_bounds [OF m] b have lo: "2 ^ b \<le> ?m" and hi: "?m < 2 * 2 ^ b" by simp_all
  have "real (2 ^ b) \<le> real ?m" using lo by (rule of_nat_mono)
  then have lo': "(2::real) ^ b \<le> real ?m" by simp
  have "Suc ?m \<le> 2 * 2 ^ b" using hi by simp
  then have "real (Suc ?m) \<le> real (2 * 2 ^ b)" by (rule of_nat_mono)
  then have hi': "real ?m + 1 \<le> 2 * 2 ^ b" by simp
  have e: "ilog2 x = - int (Suc b)" by (simp add: ilog2_def False b)
  have "nat (int b + 1) = Suc b" by simp
  then have p: "pow2 (ilog2 x) = 1 / (2 * 2 ^ b)" by (simp add: e pow2_def)
  have "1 / x \<le> 2 * 2 ^ b" using m2 hi' by linarith
  then have A: "1 / (2 * 2 ^ b) \<le> x" using assms
    by (simp add: field_simps)
  have "2 ^ b < 1 / x" using m1 lo' by linarith
  then have B: "x < 1 / 2 ^ b" using assms by (simp add: field_simps)
  show ?thesis using A B by (simp add: p)
qed

lemma round_even_int: "round_even (of_int z) = z"
  by (simp add: round_even_def)

lemma round_even_error: "\<bar>of_int (round_even t) - t\<bar> \<le> 1 / 2"
  by (simp add: round_even_def Let_def)

text \<open>Rounding an in-range number to binary64 has a relative error of at most one in \<open>2 ^ 53\<close>, and an integer below \<open>2 ^ 53\<close> in magnitude is representable.\<close>

lemma ilog2_range:
  assumes "0 < x" "pow2 a \<le> x" "x < pow2 b"
  shows "a \<le> ilog2 x \<and> ilog2 x < b"
proof -
  from ilog2_bounds [OF assms(1)] have lo: "pow2 (ilog2 x) \<le> x" and hi: "x < 2 * pow2 (ilog2 x)" by simp_all
  have "pow2 1 = 2" by (simp add: pow2_def)
  then have hi': "x < pow2 (ilog2 x + 1)" using hi by (simp add: pow2_add)
  have "ilog2 x < b"
  proof (rule ccontr)
    assume "\<not> ilog2 x < b"
    then have "pow2 b \<le> pow2 (ilog2 x)" by (simp add: pow2_mono)
    then show False using lo assms(3) by linarith
  qed
  moreover have "a \<le> ilog2 x"
  proof (rule ccontr)
    assume "\<not> a \<le> ilog2 x"
    then have "pow2 (ilog2 x + 1) \<le> pow2 a" by (simp add: pow2_mono)
    then show False using hi' assms(2) by linarith
  qed
  ultimately show ?thesis by simp
qed

lemma max_finite_binary64: "2 ^ 53 + 1 < max_finite binary64"
  by (simp add: max_finite_def binary64_def pow2_def)

lemma round_to_format_error:
  assumes lo: "pow2 (- 1022) \<le> \<bar>x\<bar>" and hi: "\<bar>x\<bar> < 2 ^ 53"
  shows "\<exists>r. round_to_format binary64 x = Fin r \<and> \<bar>r - x\<bar> \<le> \<bar>x\<bar> / 2 ^ 53"
proof -
  have pos: "0 < \<bar>x\<bar>" using lo pow2_pos [of "- 1022"] by linarith
  then have nz: "x \<noteq> 0" by simp
  let ?e = "ilog2 \<bar>x\<bar>"
  have "\<bar>x\<bar> < pow2 53" using hi by (simp add: pow2_def)
  from ilog2_range [OF pos lo this] have e: "- 1022 \<le> ?e" "?e < 53" by simp_all
  let ?q = "pow2 (?e - 52)"
  have q: "quantum binary64 x = ?q" using e by (simp add: quantum_def binary64_def max_def)
  have qpos: "0 < ?q" by (rule pow2_pos)
  let ?r = "of_int (round_even (x / ?q)) * ?q"
  have "\<bar>?r - x\<bar> = \<bar>of_int (round_even (x / ?q)) - x / ?q\<bar> * ?q"
  proof -
    have "?r - x = (of_int (round_even (x / ?q)) - x / ?q) * ?q" using qpos by (simp add: field_simps)
    then show ?thesis using qpos by (simp add: abs_mult)
  qed
  also have "\<dots> \<le> 1 / 2 * ?q" using round_even_error [of "x / ?q"] qpos
    by (simp add: mult_right_mono)
  also have "\<dots> = pow2 ?e / 2 ^ 53"
  proof -
    have "pow2 ?e = pow2 ((?e - 52) + 52)" by simp
    also have "\<dots> = ?q * 2 ^ 52" by (simp only: pow2_add) (simp add: pow2_def)
    finally show ?thesis by simp
  qed
  also have "\<dots> \<le> \<bar>x\<bar> / 2 ^ 53" using ilog2_bounds [OF pos] by (simp add: divide_right_mono)
  finally have err: "\<bar>?r - x\<bar> \<le> \<bar>x\<bar> / 2 ^ 53" .
  have "\<bar>x\<bar> / 2 ^ 53 \<le> 1" using hi by simp
  then have "\<bar>?r\<bar> \<le> 2 ^ 53 + 1" using err hi by linarith
  then have "\<not> max_finite binary64 < \<bar>?r\<bar>" using max_finite_binary64 by linarith
  then have "round_to_format binary64 x = Fin ?r"
    using nz by (simp add: round_to_format_def q Let_def)
  then show ?thesis using err by blast
qed

lemma round_to_format_int:
  assumes "\<bar>n\<bar> < 2 ^ 53"
  shows "round_to_format binary64 (of_int n) = Fin (of_int n)"
proof (cases "n = 0")
  case True
  then show ?thesis by (simp add: round_to_format_def)
next
  case False
  let ?x = "of_int n :: real"
  have pos: "0 < \<bar>?x\<bar>" using False by simp
  have one: "pow2 0 \<le> \<bar>?x\<bar>"
  proof -
    have "1 \<le> \<bar>n\<bar>" using False by linarith
    then have "(1::real) \<le> of_int \<bar>n\<bar>" by (metis of_int_1_le_iff)
    then show ?thesis by (simp add: pow2_def)
  qed
  have "of_int \<bar>n\<bar> < (of_int (2 ^ 53) :: real)" using assms by (simp only: of_int_less_iff)
  then have hi: "\<bar>?x\<bar> < 2 ^ 53" by simp
  then have "\<bar>?x\<bar> < pow2 53" by (simp add: pow2_def)
  let ?e = "ilog2 \<bar>?x\<bar>"
  from ilog2_range [OF pos one \<open>\<bar>?x\<bar> < pow2 53\<close>] have e: "0 \<le> ?e" "?e < 53" by simp_all
  let ?k = "nat (52 - ?e)"
  have q: "quantum binary64 ?x = 1 / 2 ^ ?k"
    using e by (simp add: quantum_def binary64_def max_def pow2_def)
  have "?x / (1 / 2 ^ ?k) = of_int (n * 2 ^ ?k)" by simp
  then have re: "round_even (?x / (1 / 2 ^ ?k)) = n * 2 ^ ?k"
    by (simp only: round_even_int)
  have r: "of_int (round_even (?x / (1 / 2 ^ ?k))) * (1 / 2 ^ ?k) = ?x"
    by (simp only: re) simp
  have "\<not> max_finite binary64 < \<bar>?x\<bar>" using max_finite_binary64 hi by linarith
  then show ?thesis using False
    by (simp only: round_to_format_def q Let_def r) simp
qed

text \<open>For integers \<open>x\<close> and \<open>y\<close> below \<open>2 ^ 52\<close> in magnitude the rounded quotient has
  the floor of the exact quotient, and the product and the difference of \<^verbatim>\<open>FloorMod\<close> are
  exact.\<close>

lemma mod_fraction_bounds:
  fixes x y :: int
  assumes y: "y \<noteq> 0" and m: "x mod y \<noteq> 0"
  shows "1 / \<bar>real_of_int y\<bar> \<le> real_of_int (x mod y) / real_of_int y
         \<and> real_of_int (x mod y) / real_of_int y \<le> 1 - 1 / \<bar>real_of_int y\<bar>"
proof (cases "0 < y")
  case True
  have "0 \<le> x mod y" "x mod y < y" using True by simp_all
  then have "1 \<le> x mod y" "x mod y \<le> y - 1" using m by linarith+
  then have "1 \<le> real_of_int (x mod y)" "real_of_int (x mod y) \<le> real_of_int y - 1"
    by linarith+
  then show ?thesis using True by (simp add: field_simps)
next
  case False
  then have neg: "y < 0" using y by simp
  have "x mod y \<le> 0" "y < x mod y" using neg by simp_all
  then have "x mod y \<le> - 1" "y + 1 \<le> x mod y" using m by linarith+
  then have "real_of_int (x mod y) \<le> - 1" "real_of_int y + 1 \<le> real_of_int (x mod y)"
    by linarith+
  then show ?thesis using neg by (simp add: field_simps)
qed

lemma rounded_quotient_floor:
  fixes x y :: int
  assumes y: "y \<noteq> 0" and bx: "\<bar>x\<bar> < 2 ^ 52" and bnd: "\<bar>y\<bar> < 2 ^ 52"
  shows "\<exists>r. round_to_format binary64 (real_of_int x / real_of_int y) = Fin r \<and> \<lfloor>r\<rfloor> = x div y"
proof (cases "x mod y = 0")
  case True
  then have xy: "x = (x div y) * y" by (simp add: mod_eq_0_iff_dvd)
  have t: "real_of_int x / real_of_int y = real_of_int (x div y)"
    using True y by (simp add: real_of_int_div mod_eq_0_iff_dvd)
  have "\<bar>x\<bar> = \<bar>x div y\<bar> * \<bar>y\<bar>" using xy by (metis abs_mult)
  moreover have "1 \<le> \<bar>y\<bar>" using y by linarith
  ultimately have "\<bar>x div y\<bar> \<le> \<bar>x\<bar>" by (metis abs_ge_zero mult.right_neutral mult_left_mono)
  then have "\<bar>x div y\<bar> < 2 ^ 53" using bx by simp
  from round_to_format_int [OF this] show ?thesis by (simp add: t)
next
  case False
  let ?t = "real_of_int x / real_of_int y"
  let ?k = "x div y"
  have ry: "0 < \<bar>real_of_int y\<bar>" using y by simp
  have rx: "\<bar>real_of_int x\<bar> < 2 ^ 52"
  proof -
    have "real_of_int \<bar>x\<bar> < real_of_int (2 ^ 52)" using bx by (simp only: of_int_less_iff)
    then show ?thesis by simp
  qed
  have ry2: "\<bar>real_of_int y\<bar> < 2 ^ 52"
  proof -
    have "real_of_int \<bar>y\<bar> < real_of_int (2 ^ 52)" using bnd by (simp only: of_int_less_iff)
    then show ?thesis by simp
  qed
  have ry1: "1 \<le> \<bar>real_of_int y\<bar>"
  proof -
    have "1 \<le> \<bar>y\<bar>" using y by linarith
    then have "real_of_int 1 \<le> real_of_int \<bar>y\<bar>" by (simp only: of_int_le_iff)
    then show ?thesis by simp
  qed
  have xnz: "x \<noteq> 0" using False by auto
  have rx1: "1 \<le> \<bar>real_of_int x\<bar>"
  proof -
    have "1 \<le> \<bar>x\<bar>" using xnz by linarith
    then have "real_of_int 1 \<le> real_of_int \<bar>x\<bar>" by (simp only: of_int_le_iff)
    then show ?thesis by simp
  qed
  have frac: "?t - real_of_int ?k = real_of_int (x mod y) / real_of_int y"
  proof -
    have "real_of_int x = real_of_int (?k * y + x mod y)" by simp
    also have "\<dots> = real_of_int ?k * real_of_int y + real_of_int (x mod y)" by (simp only: of_int_add of_int_mult)
    finally show ?thesis using y by (simp add: field_simps)
  qed
  from mod_fraction_bounds [OF y False] frac
  have lo: "real_of_int ?k + 1 / \<bar>real_of_int y\<bar> \<le> ?t"
    and hi: "?t \<le> real_of_int ?k + 1 - 1 / \<bar>real_of_int y\<bar>" by linarith+
  have tabs: "\<bar>?t\<bar> = \<bar>real_of_int x\<bar> / \<bar>real_of_int y\<bar>" by simp
  have t_hi: "\<bar>?t\<bar> < 2 ^ 53"
  proof -
    have "\<bar>real_of_int x\<bar> / \<bar>real_of_int y\<bar> \<le> \<bar>real_of_int x\<bar> / 1"
      using ry1 by (intro divide_left_mono) simp_all
    then show ?thesis using rx tabs by simp
  qed
  have t_lo: "pow2 (- 1022) \<le> \<bar>?t\<bar>"
  proof -
    have "1 / \<bar>real_of_int y\<bar> \<le> \<bar>real_of_int x\<bar> / \<bar>real_of_int y\<bar>"
      using rx1 ry by (simp add: divide_right_mono)
    moreover have "1 / 2 ^ 52 \<le> 1 / \<bar>real_of_int y\<bar>"
      using ry ry2 by (simp add: field_simps)
    moreover have "pow2 (- 1022) \<le> 1 / 2 ^ 52" by (simp add: pow2_def)
    ultimately show ?thesis using tabs by linarith
  qed
  from round_to_format_error [OF t_lo t_hi]
  obtain r where r: "round_to_format binary64 ?t = Fin r" and err: "\<bar>r - ?t\<bar> \<le> \<bar>?t\<bar> / 2 ^ 53"
    by blast
  have small: "\<bar>?t\<bar> / 2 ^ 53 < 1 / \<bar>real_of_int y\<bar>"
  proof -
    have "\<bar>?t\<bar> / 2 ^ 53 = (\<bar>real_of_int x\<bar> / 2 ^ 53) / \<bar>real_of_int y\<bar>" by (simp add: tabs)
    also have "\<dots> < 1 / \<bar>real_of_int y\<bar>"
      using rx ry by (intro divide_strict_right_mono) simp_all
    finally show ?thesis .
  qed
  have "real_of_int ?k \<le> r" "r < real_of_int ?k + 1" using err small lo hi by linarith+
  then have "\<lfloor>r\<rfloor> = ?k" by (simp add: floor_unique)
  then show ?thesis using r by blast
qed

lemma threshold_positive: "\<exists>c. round_to_format binary64 (1 / 10 ^ 9) = Fin c \<and> 0 < c"
proof -
  have lo: "pow2 (- 1022) \<le> \<bar>1 / 10 ^ 9 :: real\<bar>" by (simp add: pow2_def)
  have hi: "\<bar>1 / 10 ^ 9 :: real\<bar> < 2 ^ 53" by simp
  from round_to_format_error [OF lo hi]
  obtain c where c: "round_to_format binary64 (1 / 10 ^ 9) = Fin c"
    and err: "\<bar>c - 1 / 10 ^ 9\<bar> \<le> \<bar>1 / 10 ^ 9 :: real\<bar> / 2 ^ 53" by blast
  have "\<bar>1 / 10 ^ 9 :: real\<bar> / 2 ^ 53 < 1 / 10 ^ 9" by simp
  then have "0 < c" using err by linarith
  then show ?thesis using c by blast
qed

lemma FloorMod_value_int:
  fixes x y :: int
  assumes y: "y \<noteq> 0" and bx: "\<bar>x\<bar> < 2 ^ 52" and bnd: "\<bar>y\<bar> < 2 ^ 52"
  shows "FloorMod_value (Fin (real_of_int x)) (Fin (real_of_int y)) = Fin (real_of_int (x mod y))"
proof -
  let ?k = "x div y" and ?m = "x mod y"
  from rounded_quotient_floor [OF y bx bnd]
  obtain r where r: "round_to_format binary64 (real_of_int x / real_of_int y) = Fin r"
    and fl: "\<lfloor>r\<rfloor> = ?k" by blast
  have q: "ffloor (fdiv binary64 (Fin (real_of_int x)) (Fin (real_of_int y))) = Fin (real_of_int ?k)"
    using y by (simp add: r fl)
  have mabs: "\<bar>?m\<bar> < \<bar>y\<bar>" using y by (simp add: abs_mod_less)
  have ky: "?k * y = x - ?m" by (simp add: algebra_simps)
  have "\<bar>?k * y\<bar> \<le> \<bar>x\<bar> + \<bar>?m\<bar>" unfolding ky by linarith
  then have "\<bar>?k * y\<bar> < 2 ^ 53" using mabs bx bnd by simp
  from round_to_format_int [OF this]
  have p: "fmul binary64 (Fin (real_of_int ?k)) (Fin (real_of_int y)) = Fin (real_of_int (?k * y))"
    by simp
  have "\<bar>?m\<bar> < 2 ^ 53" using mabs bnd by simp
  from round_to_format_int [OF this]
  have d: "fsub binary64 (Fin (real_of_int x)) (Fin (real_of_int (?k * y))) = Fin (real_of_int ?m)"
  proof -
    have "real_of_int x + - real_of_int (?k * y) = real_of_int ?m"
      by (simp only: ky)
    then show ?thesis using \<open>round_to_format binary64 (real_of_int ?m) = Fin (real_of_int ?m)\<close>
      by (simp add: fsub_def)
  qed
  obtain c where c: "round_to_format binary64 (1 / 10 ^ 9) = Fin c" and cpos: "0 < c"
    using threshold_positive by blast
  have sign: "?m = 0 \<or> ((?m < 0) = (y < 0))"
  proof (cases "0 < y")
    case True
    then have "0 \<le> ?m" by simp
    then have "\<not> ?m < 0" "\<not> y < 0" using True by linarith+
    then show ?thesis by simp
  next
    case False
    then have "y < 0" using y by simp
    then have "?m \<le> 0" by simp
    then have "?m = 0 \<or> ?m < 0" by linarith
    then show ?thesis using \<open>y < 0\<close> by blast
  qed
  have "\<not> (fgt (fabs (Fin (real_of_int ?m))) (Fin c)
            \<and> (flt (Fin (real_of_int ?m)) (Fin 0) \<noteq> flt (Fin (real_of_int y)) (Fin 0)))"
    using sign cpos by (auto simp: fgt_def)
  then show ?thesis
    unfolding FloorMod_value_def by (simp only: q p d c Let_def if_False)
qed

section \<open>Arithmetic kernels: FloorMod\<close>

lemma FloorMod_as_loop:
  "FloorMod T this input1 input2 out m =
     for_loop 0 (output_size this)
       (\<lambda>i m'. m'(out + i :=
          (\<lambda>i a b. t_of_double T (FloorMod_value (t_to_double T a) (t_to_double T b)))
            i (m' (input1 + GetInputPosA (base_iter this) i))
              (m' (input2 + GetInputPosB (base_iter this) i)))) m"
  unfolding FloorMod_def ParallelLaunchAutoSearch_def
  by (rule arg_cong [where f = "\<lambda>b. for_loop 0 (output_size this) b m"])
     (auto simp: Let_def fun_eq_iff)

lemma FloorMod_cells:
  assumes ro: "reads_outside_output this input1 input2 out" and i: "i < output_size this"
  shows "FloorMod T this input1 input2 out m (out + i) =
           t_of_double T (FloorMod_value
              (t_to_double T (m (input1 + GetInputPosA (base_iter this) i)))
              (t_to_double T (m (input2 + GetInputPosB (base_iter this) i))))"
  using elementwise_loop_total [OF reads_outside_outputD [OF ro],
          of "\<lambda>i a b. t_of_double T (FloorMod_value (t_to_double T a) (t_to_double T b))" m] i
  by (simp add: FloorMod_as_loop)

lemma sint32_bounds: "- (2 ^ 31) \<le> sint (a :: 32 word) \<and> sint a < 2 ^ 31"
  using sint_ge [of a] sint_lt [of a] by simp

lemma int32_to_double: "t_to_double int32_type a = Fin (real_of_int (sint a))"
proof -
  have "\<bar>sint a\<bar> < 2 ^ 53" using sint32_bounds [of a] by (auto simp: abs_less_iff)
  from round_to_format_int [OF this] show ?thesis by (simp add: int32_type_def)
qed

lemma int32_of_double:
  assumes "- (2 ^ 31) \<le> r" "r < 2 ^ 31"
  shows "sint (t_of_double int32_type (Fin (real_of_int r))) = r"
proof -
  have "trunc_toward_zero (real_of_int r) = r" by (simp add: trunc_toward_zero_def)
  then have "t_of_double int32_type (Fin (real_of_int r)) = word_of_int r"
    using assms by (simp add: int32_type_def)
  moreover have "sint (word_of_int r :: 32 word) = r"
    using assms by (simp add: sint_sbintrunc' signed_take_bit_int_eq_self)
  ultimately show ?thesis by simp
qed

lemma FloorMod_int32_value:
  fixes a b :: "32 word"
  assumes "sint b \<noteq> 0"
  shows "sint (t_of_double int32_type (FloorMod_value (t_to_double int32_type a) (t_to_double int32_type b)))
           = sint a mod sint b"
proof -
  let ?x = "sint a" and ?y = "sint b"
  have bx: "\<bar>?x\<bar> < 2 ^ 52" using sint32_bounds [of a] by (auto simp: abs_less_iff)
  have bnd: "\<bar>?y\<bar> < 2 ^ 52" using sint32_bounds [of b] by (auto simp: abs_less_iff)
  have v: "FloorMod_value (t_to_double int32_type a) (t_to_double int32_type b) = Fin (real_of_int (?x mod ?y))"
    by (simp only: int32_to_double FloorMod_value_int [OF assms bx bnd])
  have "- (2 ^ 31) \<le> ?x mod ?y \<and> ?x mod ?y < 2 ^ 31"
  proof (cases "0 < ?y")
    case True
    then have "0 \<le> ?x mod ?y" "?x mod ?y < ?y" by simp_all
    then show ?thesis using sint32_bounds [of b] by linarith
  next
    case False
    then have "?y < 0" using assms by simp
    then have "?x mod ?y \<le> 0" "?y < ?x mod ?y" by simp_all
    then show ?thesis using sint32_bounds [of b] by linarith
  qed
  then show ?thesis by (simp only: v int32_of_double)
qed

lemma name_FloorMod: "kFloorMod \<noteq> kAssignAdd" "kFloorMod \<noteq> kAssignSub"
  by (simp_all add: kFloorMod_def kAssignAdd_def kAssignSub_def)

lemma init_FloorMod: "InitComputeFunc_real T kFloorMod = Func (FloorMod T)"
  by (simp add: InitComputeFunc_real_def kFloorMod_def kAssignAdd_def kAssignSub_def kAdd_def kAddV2_def kSub_def
      kMul_def kDiv_def kDivNoNan_def kMod_def kPow_def kFloorDiv_def kAtan2_def kRealDiv_def)

lemma FloorMod_int32_cells:
  assumes ro: "reads_outside_output this input1 input2 out" and name: "kernel_name this = kFloorMod"
  shows "\<exists>m'. RunFunc int32_type (InitComputeFunc_real int32_type (kernel_name this)) this input1 input2 out m
                 = Some (True, m') \<and>
              (\<forall>i<output_size this.
                 let x = sint (m (input1 + GetInputPosA (base_iter this) i));
                     y = sint (m (input2 + GetInputPosB (base_iter this) i));
                     r = sint (m' (out + i))
                 in y \<noteq> 0 \<longrightarrow> r = x mod y \<and> \<bar>r\<bar> < \<bar>y\<bar> \<and> (r = 0 \<or> (r < 0) = (y < 0)))"
proof (cases "output_size this = 0")
  case True
  then show ?thesis by (simp add: RunFunc_def)
next
  case False
  have run: "RunFunc int32_type (InitComputeFunc_real int32_type (kernel_name this)) this input1 input2 out m
               = Some (True, FloorMod int32_type this input1 input2 out m)"
    using False by (simp add: RunFunc_def name init_FloorMod name_FloorMod)
  have "let x = sint (m (input1 + GetInputPosA (base_iter this) i));
            y = sint (m (input2 + GetInputPosB (base_iter this) i));
            r = sint (FloorMod int32_type this input1 input2 out m (out + i))
        in y \<noteq> 0 \<longrightarrow> r = x mod y \<and> \<bar>r\<bar> < \<bar>y\<bar> \<and> (r = 0 \<or> (r < 0) = (y < 0))"
    if i: "i < output_size this" for i
  proof -
    let ?x = "sint (m (input1 + GetInputPosA (base_iter this) i))"
    let ?y = "sint (m (input2 + GetInputPosB (base_iter this) i))"
    have "sint (FloorMod int32_type this input1 input2 out m (out + i)) = ?x mod ?y
          \<and> \<bar>?x mod ?y\<bar> < \<bar>?y\<bar> \<and> (?x mod ?y = 0 \<or> (?x mod ?y < 0) = (?y < 0))" if y: "?y \<noteq> 0"
    proof -
      have r: "sint (FloorMod int32_type this input1 input2 out m (out + i)) = ?x mod ?y"
        by (simp only: FloorMod_cells [OF ro i] FloorMod_int32_value [OF y])
      have ab: "\<bar>?x mod ?y\<bar> < \<bar>?y\<bar>" using y by (simp add: abs_mod_less)
      have sg: "?x mod ?y = 0 \<or> (?x mod ?y < 0) = (?y < 0)"
      proof (cases "0 < ?y")
        case True
        then have "0 \<le> ?x mod ?y" by simp
        then have "\<not> ?x mod ?y < 0" "\<not> ?y < 0" using True by linarith+
        then show ?thesis by simp
      next
        case False
        then have "?y < 0" using y by simp
        then have "?x mod ?y \<le> 0" by simp
        then have "?x mod ?y = 0 \<or> ?x mod ?y < 0" by linarith
        then show ?thesis using \<open>?y < 0\<close> by blast
      qed
      show ?thesis using r ab sg by blast
    qed
    then show ?thesis by (simp add: Let_def)
  qed
  then show ?thesis using run by blast
qed

lemmas rnd_simps = round_to_format_def quantum_def ilog2_def bit_length.simps round_even_def
  binary64_def pow2_def max_finite_def Let_def

lemma threshold_bounds: "\<exists>c. round_to_format binary64 (1 / 10 ^ 9) = Fin c \<and> 0 < c \<and> c < 1"
proof -
  have lo: "pow2 (- 1022) \<le> \<bar>1 / 10 ^ 9 :: real\<bar>" by (simp add: pow2_def)
  have hi: "\<bar>1 / 10 ^ 9 :: real\<bar> < 2 ^ 53" by simp
  from round_to_format_error [OF lo hi]
  obtain c where c: "round_to_format binary64 (1 / 10 ^ 9) = Fin c"
    and err: "\<bar>c - 1 / 10 ^ 9\<bar> \<le> \<bar>1 / 10 ^ 9 :: real\<bar> / 2 ^ 53" by blast
  have "\<bar>1 / 10 ^ 9 :: real\<bar> / 2 ^ 53 < 1 / 10 ^ 9" by simp
  moreover have "(1 / 10 ^ 9 :: real) < 1 / 2" by simp
  ultimately have "0 < c" "c < 1" using err by linarith+
  then show ?thesis using c by blast
qed

lemma FloorMod_value_large:
  "FloorMod_value (Fin 54050795759968184) (Fin 3) = Fin (- 5)"
proof -
  have q: "fdiv binary64 (Fin 54050795759968184) (Fin 3) = Fin 18016931919989396"
    by (simp add: rnd_simps)
  have p: "fmul binary64 (Fin 18016931919989396) (Fin 3) = Fin 54050795759968192"
    by (simp add: rnd_simps)
  have d: "fsub binary64 (Fin 54050795759968184) (Fin 54050795759968192) = Fin (- 8)"
    by (simp add: fsub_def rnd_simps)
  have a: "fadd binary64 (Fin (- 8)) (Fin 3) = Fin (- 5)"
    by (simp add: rnd_simps)
  obtain c where c: "round_to_format binary64 (1 / 10 ^ 9) = Fin c" and c1: "0 < c" and c2: "c < 1"
    using threshold_bounds by blast
  have q': "ffloor (fdiv binary64 (Fin 54050795759968184) (Fin 3)) = Fin 18016931919989396"
    by (simp only: q) simp
  have cond: "fgt (fabs (Fin (- 8))) (Fin c) \<and> (flt (Fin (- 8)) (Fin 0) \<noteq> flt (Fin 3) (Fin 0))"
    using c2 by (simp add: fgt_def)
  show ?thesis
    unfolding FloorMod_value_def
    by (simp only: q' p d c Let_def cond if_True a) simp
qed

lemma int64_to_double_large:
  "t_to_double int64_type (54050795759968184 :: 64 word) = Fin 54050795759968184"
  "t_to_double int64_type (3 :: 64 word) = Fin 3"
  by (simp_all add: int64_type_def rnd_simps)

lemma int64_of_double_m5: "sint (t_of_double int64_type (Fin (- 5))) = - 5"
  by (simp add: int64_type_def trunc_toward_zero_def)


text \<open>Rounding to binary64, for every number up to \<open>2 ^ 1020\<close> in magnitude: the result is
  finite, within one part in \<open>2 ^ 53\<close> of the number (or within half the smallest
  subnormal), and not of the opposite sign.\<close>

lemma round_even_nonneg: "0 \<le> t \<Longrightarrow> 0 \<le> round_even t"
  by (simp add: round_even_def Let_def)

lemma round_even_nonpos: "t \<le> 0 \<Longrightarrow> round_even t \<le> 0"
proof -
  assume t: "t \<le> 0"
  show ?thesis
  proof (cases "t = 0")
    case True
    then show ?thesis by (simp add: round_even_def)
  next
    case False
    then have neg: "t < 0" using t by simp
    then have f: "\<lfloor>t\<rfloor> \<le> - 1" by linarith
    show ?thesis
    proof (cases "\<lfloor>t\<rfloor> = - 1")
      case True
      then show ?thesis using neg by (auto simp add: round_even_def Let_def)
    next
      case False
      then have "\<lfloor>t\<rfloor> \<le> - 2" using f by linarith
      then show ?thesis by (auto simp add: round_even_def Let_def)
    qed
  qed
qed

lemma max_finite_binary64_large: "2 ^ 1022 < max_finite binary64"
  by (simp add: max_finite_def binary64_def pow2_def)

lemma round_to_format_bound:
  assumes hi: "\<bar>z\<bar> \<le> 2 ^ 1020"
  shows "\<exists>r. round_to_format binary64 z = Fin r \<and> \<bar>r - z\<bar> \<le> \<bar>z\<bar> / 2 ^ 53 + 1 / 2 ^ 1075
             \<and> (0 \<le> z \<longrightarrow> 0 \<le> r) \<and> (z \<le> 0 \<longrightarrow> r \<le> 0)"
proof (cases "z = 0")
  case True
  then show ?thesis by (simp add: round_to_format_def)
next
  case False
  then have pos: "0 < \<bar>z\<bar>" by simp
  let ?e = "ilog2 \<bar>z\<bar>"
  from ilog2_bounds [OF pos] have lo: "pow2 ?e \<le> \<bar>z\<bar>" by simp
  have e_hi: "?e \<le> 1020"
  proof (rule ccontr)
    assume "\<not> ?e \<le> 1020"
    then have "pow2 1021 \<le> pow2 ?e" by (simp add: pow2_mono)
    moreover have "pow2 1021 = 2 * 2 ^ 1020" by (simp add: pow2_def)
    moreover have "(0::real) < 2 ^ 1020" by simp
    ultimately show False using lo hi by linarith
  qed
  let ?m = "max ?e (- 1022)"
  let ?q = "pow2 (?m - 52)"
  have q: "quantum binary64 z = ?q" by (simp add: quantum_def binary64_def)
  have qpos: "0 < ?q" by (rule pow2_pos)
  let ?r = "of_int (round_even (z / ?q)) * ?q"
  have "\<bar>?r - z\<bar> = \<bar>of_int (round_even (z / ?q)) - z / ?q\<bar> * ?q"
  proof -
    have "?r - z = (of_int (round_even (z / ?q)) - z / ?q) * ?q" using qpos by (simp add: field_simps)
    then show ?thesis using qpos by (simp add: abs_mult)
  qed
  also have "\<dots> \<le> 1 / 2 * ?q" using round_even_error [of "z / ?q"] qpos
    by (simp add: mult_right_mono)
  also have "\<dots> = pow2 ?m / 2 ^ 53"
  proof -
    have "pow2 ?m = pow2 ((?m - 52) + 52)" by simp
    also have "\<dots> = ?q * 2 ^ 52" by (simp only: pow2_add) (simp add: pow2_def)
    finally show ?thesis by simp
  qed
  finally have half: "\<bar>?r - z\<bar> \<le> pow2 ?m / 2 ^ 53" .
  have m_cases: "pow2 ?m / 2 ^ 53 \<le> \<bar>z\<bar> / 2 ^ 53 + 1 / 2 ^ 1075"
  proof (cases "- 1022 \<le> ?e")
    case True
    then have "?m = ?e" by simp
    then have "pow2 ?m / 2 ^ 53 \<le> \<bar>z\<bar> / 2 ^ 53" using lo by (simp add: divide_right_mono)
    then show ?thesis by (simp add: add_increasing2)
  next
    case False
    then have "?m = - 1022" by simp
    then have "pow2 ?m / 2 ^ 53 = 1 / 2 ^ 1075" by (simp add: pow2_def)
    then show ?thesis by simp
  qed
  have err: "\<bar>?r - z\<bar> \<le> \<bar>z\<bar> / 2 ^ 53 + 1 / 2 ^ 1075" using half m_cases by linarith
  have "pow2 ?m \<le> pow2 1020" using e_hi by (intro pow2_mono) simp
  moreover have "pow2 1020 = 2 ^ 1020" by (simp add: pow2_def)
  moreover have "pow2 ?m / 2 ^ 53 \<le> pow2 ?m" using pow2_pos [of ?m] by (simp add: field_simps)
  ultimately have "pow2 ?m / 2 ^ 53 \<le> 2 ^ 1020" by linarith
  then have "\<bar>?r\<bar> \<le> 2 * 2 ^ 1020" using half hi by linarith
  moreover have "(2::real) * 2 ^ 1020 < 2 ^ 1022" by simp
  ultimately have "\<not> max_finite binary64 < \<bar>?r\<bar>" using max_finite_binary64_large by linarith
  then have res: "round_to_format binary64 z = Fin ?r"
    using False by (simp add: round_to_format_def q Let_def)
  have s1: "0 \<le> ?r" if "0 \<le> z"
  proof -
    have "0 \<le> z / ?q" using that qpos by simp
    then have "0 \<le> round_even (z / ?q)" by (rule round_even_nonneg)
    then show ?thesis using qpos by simp
  qed
  have s2: "?r \<le> 0" if "z \<le> 0"
  proof -
    have "z / ?q \<le> 0" using that qpos by (simp add: divide_le_0_iff)
    then have "round_even (z / ?q) \<le> 0" by (rule round_even_nonpos)
    then show ?thesis using qpos by (simp add: mult_le_0_iff)
  qed
  show ?thesis using res err s1 s2 by blast
qed

text \<open>The sign of the double value of \<^verbatim>\<open>FloorMod\<close>. When the remainder has the sign
  opposite to the divisor's, the rounded quotient was an integer above the exact
  quotient; then the remainder is smaller than the divisor in magnitude as long as the
  quotient stays below \<open>2 ^ 51\<close>, and adding the divisor once restores the sign.\<close>

lemma FloorMod_threshold: "round_to_format binary64 (1 / 10 ^ 9) = Fin (4835703278458517 / 2 ^ 82)"
  by (simp add: rnd_simps)

lemma FloorMod_value_unfold:
  assumes "ffloor (fdiv binary64 (Fin x) (Fin y)) = Fin k"
      and "fmul binary64 (Fin k) (Fin y) = Fin p"
      and "fsub binary64 (Fin x) (Fin p) = Fin res"
  shows "FloorMod_value (Fin x) (Fin y) =
           (if 4835703278458517 / 2 ^ 82 < \<bar>res\<bar> \<and> (res < 0) \<noteq> (y < 0)
            then fadd binary64 (Fin res) (Fin y) else Fin res)"
  unfolding FloorMod_value_def
  by (simp only: assms FloorMod_threshold Let_def fabs.simps fgt_def flt.simps)

lemma FloorMod_value_sign:
  fixes x y :: real
  assumes ylo: "1 / 2 ^ 1000 \<le> \<bar>y\<bar>" and yhi: "\<bar>y\<bar> \<le> 2 ^ 1000" and xhi: "\<bar>x\<bar> \<le> 2 ^ 1000"
      and quo: "\<bar>x\<bar> \<le> 2 ^ 51 * \<bar>y\<bar>"
  shows "\<exists>r. FloorMod_value (Fin x) (Fin y) = Fin r \<and>
             ((r < 0) = (y < 0) \<or> \<bar>r\<bar> \<le> 4835703278458517 / 2 ^ 82)"
proof -
  define \<delta> where "\<delta> = (1::real) / 2 ^ 1075"
  define B where "B = (2::real) ^ 1000"
  define C where "C = (2::real) ^ 1020"
  define c where "c = (4835703278458517::real) / 2 ^ 82"
  define Y where "Y = \<bar>y\<bar>"
  define X where "X = \<bar>x\<bar>"
  define E where "E = \<delta> * \<bar>y\<bar>"
  define X53 where "X53 = \<bar>x\<bar> / 2 ^ 53"
  have Bpos: "0 < B" by (simp add: B_def)
  have dpos: "0 < \<delta>" by (simp add: \<delta>_def)
  have cpos: "0 < c" by (simp add: c_def)
  have BC: "8 * B \<le> C" by (simp add: B_def C_def)
  have d1: "\<delta> \<le> 1 / 64" by (simp add: \<delta>_def)
  have Ypos: "0 < Y"
  proof -
    have "(0::real) < 1 / 2 ^ 1000" by simp
    then show ?thesis using ylo by (simp add: Y_def)
  qed
  then have y0: "y \<noteq> 0" by (auto simp: Y_def)
  have Xnn: "0 \<le> X" by (simp add: X_def)
  have Enn: "0 \<le> E" using dpos by (simp add: E_def)
  have X53nn: "0 \<le> X53" by (simp add: X53_def)
  have dB: "\<delta> = (1 / 2 ^ 1000) / 2 ^ 75" by (simp add: \<delta>_def)
  have "\<delta> \<le> \<bar>y\<bar> / 2 ^ 75"
    unfolding dB using ylo by (simp add: divide_right_mono)
  moreover have "\<bar>y\<bar> / 2 ^ 75 \<le> \<bar>y\<bar> / 64" by (simp add: field_simps)
  ultimately have dy: "\<delta> \<le> Y / 64" unfolding Y_def by linarith
  have EY: "E \<le> Y / 64"
  proof -
    have "\<delta> * \<bar>y\<bar> \<le> (1 / 64) * \<bar>y\<bar>" using d1 by (intro mult_right_mono) simp_all
    then show ?thesis by (simp add: E_def Y_def)
  qed
  have h53: "a / 2 ^ 53 \<le> a / 64" if "0 \<le> a" for a :: real
    using that by (simp add: field_simps)
  have xq: "X53 \<le> Y / 4"
  proof -
    have "\<bar>x\<bar> / 2 ^ 53 \<le> (2 ^ 51 * \<bar>y\<bar>) / 2 ^ 53" using quo by (intro divide_right_mono) simp_all
    then show ?thesis by (simp add: X53_def Y_def)
  qed
  have YB: "Y \<le> B" and XB: "X \<le> B" using yhi xhi by (simp_all add: B_def Y_def X_def)
  let ?t = "x / y"
  have ty: "?t * y = x" using y0 by simp
  have tabs: "\<bar>?t\<bar> * \<bar>y\<bar> = \<bar>x\<bar>"
  proof -
    have "\<bar>?t\<bar> * \<bar>y\<bar> = \<bar>?t * y\<bar>" by (simp only: abs_mult)
    then show ?thesis by (simp only: ty)
  qed
  have thi: "\<bar>?t\<bar> \<le> 2 ^ 51"
  proof -
    have "\<bar>?t\<bar> = \<bar>x\<bar> / \<bar>y\<bar>" by simp
    also have "\<dots> \<le> 2 ^ 51" using quo Ypos by (simp add: field_simps Y_def)
    finally show ?thesis .
  qed
  have "\<bar>?t\<bar> \<le> 2 ^ 1020"
  proof -
    have "(2::real) ^ 51 \<le> 2 ^ 1020" by simp
    then show ?thesis using thi by linarith
  qed
  from round_to_format_bound [OF this]
  obtain q where q: "round_to_format binary64 ?t = Fin q"
    and eq: "\<bar>q - ?t\<bar> \<le> \<bar>?t\<bar> / 2 ^ 53 + \<delta>"
    unfolding \<delta>_def by blast
  define k where "k = real_of_int \<lfloor>q\<rfloor>"
  have kq: "k \<le> q" "q < k + 1" unfolding k_def by linarith+
  have div: "ffloor (fdiv binary64 (Fin x) (Fin y)) = Fin k"
    using y0 by (simp add: q k_def)
  define T1 where "T1 = (?t - q) * y"
  define T2 where "T2 = (q - k) * y"
  define K where "K = k * y"
  have a1: "\<bar>T1\<bar> \<le> X53 + E"
  proof -
    have "\<bar>(?t - q) * y\<bar> = \<bar>q - ?t\<bar> * \<bar>y\<bar>" by (simp add: abs_mult abs_minus_commute)
    also have "\<dots> \<le> (\<bar>?t\<bar> / 2 ^ 53 + \<delta>) * \<bar>y\<bar>" using eq by (intro mult_right_mono) simp_all
    also have "\<dots> = (\<bar>?t\<bar> * \<bar>y\<bar>) / 2 ^ 53 + \<delta> * \<bar>y\<bar>" by (simp add: algebra_simps)
    finally show ?thesis by (simp only: tabs T1_def X53_def E_def)
  qed
  have a2: "\<bar>T2\<bar> \<le> Y"
  proof -
    have "\<bar>q - k\<bar> \<le> 1" using kq by linarith
    then have "\<bar>q - k\<bar> * \<bar>y\<bar> \<le> 1 * \<bar>y\<bar>" by (intro mult_right_mono) simp_all
    then show ?thesis by (simp add: abs_mult T2_def Y_def)
  qed
  have T2sign: "(0 < y \<longrightarrow> 0 \<le> T2) \<and> (y < 0 \<longrightarrow> T2 \<le> 0)"
    using kq by (simp add: T2_def mult_le_0_iff)
  have decomp_K: "K = x - T1 - T2"
    unfolding K_def T1_def T2_def using ty by (simp add: algebra_simps)
  have Kb: "\<bar>K\<bar> \<le> X + X53 + E + Y"
    unfolding decomp_K X_def using a1 a2 by linarith
  define K53 where "K53 = \<bar>K\<bar> / 2 ^ 53"
  have K53: "K53 \<le> Y / 4 + Y / 16"
    unfolding K53_def
  proof -
    have "\<bar>K\<bar> / 2 ^ 53 \<le> (X + X53 + E + Y) / 2 ^ 53"
      using Kb by (intro divide_right_mono) simp_all
    also have "\<dots> = X / 2 ^ 53 + (X53 + E + Y) / 2 ^ 53"
      by (simp add: add_divide_distrib)
    also have "\<dots> = X53 + (X53 + E + Y) / 2 ^ 53" by (simp add: X53_def X_def)
    also have "\<dots> \<le> X53 + (X53 + E + Y) / 64"
      using X53nn Enn Ypos by (intro add_left_mono h53) simp
    finally have "\<bar>K\<bar> / 2 ^ 53 \<le> X53 + (X53 + E + Y) / 64" .
    then have "K53 \<le> X53 + (X53 + E + Y) / 64" by (simp only: K53_def)
    then have "K53 \<le> X53 + (X53 / 64 + E / 64 + Y / 64)" by (simp only: add_divide_distrib)
    then have "K53 \<le> Y / 4 + Y / 16" using xq EY Ypos by linarith
    then show "\<bar>K\<bar> / 2 ^ 53 \<le> Y / 4 + Y / 16" by (simp only: K53_def)
  qed
  have "\<bar>K\<bar> \<le> C" using Kb xq XB YB EY BC Bpos Ypos by linarith
  then have "\<bar>k * y\<bar> \<le> 2 ^ 1020" by (simp add: C_def K_def)
  from round_to_format_bound [OF this]
  obtain p where p: "round_to_format binary64 (k * y) = Fin p"
    and ep0: "\<bar>p - k * y\<bar> \<le> \<bar>k * y\<bar> / 2 ^ 53 + \<delta>"
    unfolding \<delta>_def by blast
  have ep: "\<bar>p - K\<bar> \<le> K53 + \<delta>" using ep0 by (simp add: K_def K53_def)
  have mul: "fmul binary64 (Fin k) (Fin y) = Fin p" by (simp add: p)
  define d where "d = x - p"
  have dK: "\<bar>d\<bar> \<le> X + \<bar>K\<bar> + K53 + \<delta>"
    unfolding d_def X_def using ep by linarith
  have "\<bar>d\<bar> \<le> C" using dK Kb K53 xq XB YB EY dy BC Bpos Ypos by linarith
  then have "\<bar>x - p\<bar> \<le> 2 ^ 1020" by (simp add: C_def d_def)
  from round_to_format_bound [OF this]
  obtain res where res: "round_to_format binary64 (x - p) = Fin res"
    and er0: "\<bar>res - (x - p)\<bar> \<le> \<bar>x - p\<bar> / 2 ^ 53 + \<delta>"
    and rs1: "0 \<le> x - p \<longrightarrow> 0 \<le> res" and rs2: "x - p \<le> 0 \<longrightarrow> res \<le> 0"
    unfolding \<delta>_def by blast
  define D53 where "D53 = \<bar>d\<bar> / 2 ^ 53"
  have er: "\<bar>res - d\<bar> \<le> D53 + \<delta>" using er0 by (simp add: d_def D53_def)
  have D53: "D53 \<le> \<bar>d\<bar> / 64" unfolding D53_def by (rule h53) simp
  have sub: "fsub binary64 (Fin x) (Fin p) = Fin res" by (simp add: fsub_def res)
  note unf = FloorMod_value_unfold [OF div mul sub, folded c_def]
  show ?thesis
  proof (cases "c < \<bar>res\<bar> \<and> (res < 0) \<noteq> (y < 0)")
    case False
    then have "FloorMod_value (Fin x) (Fin y) = Fin res" by (simp only: unf if_False)
    moreover have "(res < 0) = (y < 0) \<or> \<bar>res\<bar> \<le> c" using False by auto
    ultimately show ?thesis by (auto simp: c_def)
  next
    case True
    then have big: "c < \<bar>res\<bar>" and wrong: "(res < 0) \<noteq> (y < 0)" by simp_all
    have decomp_d: "d = T1 + T2 + (K - p)"
      unfolding d_def T1_def T2_def K_def using ty by (simp add: algebra_simps)
    have dsmall: "\<bar>d\<bar> \<le> X53 + E + K53 + \<delta>"
    proof (cases "0 < y")
      case True
      then have "res < 0" using wrong by simp
      then have dneg: "d < 0" using rs1 unfolding d_def by linarith
      have "0 \<le> T2" using T2sign True by simp
      then show ?thesis using dneg decomp_d a1 ep by linarith
    next
      case False
      then have yneg: "y < 0" using y0 by simp
      then have "0 \<le> res" using wrong by simp
      then have "0 < res" using big cpos by linarith
      then have dpos': "0 < d" using rs2 unfolding d_def by linarith
      have "T2 \<le> 0" using T2sign yneg by simp
      then show ?thesis using dpos' decomp_d a1 ep by linarith
    qed
    have resY: "\<bar>res\<bar> \<le> Y"
      using dsmall er D53 K53 xq dy EY Ypos by linarith
    have "\<bar>res + y\<bar> \<le> C" using resY YB BC Bpos unfolding Y_def by linarith
    then have "\<bar>res + y\<bar> \<le> 2 ^ 1020" by (simp add: C_def)
    from round_to_format_bound [OF this]
    obtain r where r: "round_to_format binary64 (res + y) = Fin r"
      and s1: "0 \<le> res + y \<longrightarrow> 0 \<le> r" and s2: "res + y \<le> 0 \<longrightarrow> r \<le> 0"
      by blast
    have val: "FloorMod_value (Fin x) (Fin y) = Fin r" by (simp only: unf True if_True fadd.simps r) simp
    have "(r < 0) = (y < 0) \<or> \<bar>r\<bar> \<le> c"
    proof (cases "0 < y")
      case True
      then have "0 \<le> res + y" using resY unfolding Y_def by linarith
      then have "0 \<le> r" using s1 by simp
      then show ?thesis using True by auto
    next
      case False
      then have yneg: "y < 0" using y0 by simp
      then have "res + y \<le> 0" using resY wrong unfolding Y_def by linarith
      then have "r \<le> 0" using s2 by simp
      then show ?thesis using yneg cpos by (cases "r = 0") auto
    qed
    then show ?thesis using val by (auto simp: c_def)
  qed
qed

lemma FloorMod_kernel:
  assumes ro: "reads_outside_output this input1 input2 out" and name: "kernel_name this = kFloorMod"
  shows "\<exists>m'. RunFunc T (InitComputeFunc_real T (kernel_name this)) this input1 input2 out m = Some (True, m') \<and>
              (\<forall>i<output_size this.
                 m' (out + i) = t_of_double T (FloorMod_value
                    (t_to_double T (m (input1 + GetInputPosA (base_iter this) i)))
                    (t_to_double T (m (input2 + GetInputPosB (base_iter this) i)))))"
proof (cases "output_size this = 0")
  case True
  then show ?thesis by (simp add: RunFunc_def)
next
  case False
  have "RunFunc T (InitComputeFunc_real T (kernel_name this)) this input1 input2 out m
               = Some (True, FloorMod T this input1 input2 out m)"
    using False by (simp add: RunFunc_def name init_FloorMod name_FloorMod)
  then show ?thesis using FloorMod_cells [OF ro, of _ T m] by simp
qed

lemma FloorMod_value_correction_fires:
  "FloorMod_value (Fin (8420455420932915 / 2 ^ 17)) (Fin (3602879701896397 / 2 ^ 55))
     = Fin (3602604823989453 / 2 ^ 55)"
proof -
  have q: "fdiv binary64 (Fin (8420455420932915 / 2 ^ 17)) (Fin (3602879701896397 / 2 ^ 55)) = Fin 642429765391"
    by (simp add: rnd_simps)
  have k: "ffloor (fdiv binary64 (Fin (8420455420932915 / 2 ^ 17)) (Fin (3602879701896397 / 2 ^ 55)))
             = Fin 642429765391"
    by (simp only: q) simp
  have p: "fmul binary64 (Fin 642429765391) (Fin (3602879701896397 / 2 ^ 55)) = Fin (2105113855233229 / 2 ^ 15)"
    by (simp add: rnd_simps)
  have d: "fsub binary64 (Fin (8420455420932915 / 2 ^ 17)) (Fin (2105113855233229 / 2 ^ 15)) = Fin (- (1 / 2 ^ 17))"
    by (simp add: fsub_def rnd_simps)
  have a: "fadd binary64 (Fin (- (1 / 2 ^ 17))) (Fin (3602879701896397 / 2 ^ 55)) = Fin (3602604823989453 / 2 ^ 55)"
    by (simp add: rnd_simps)
  have cond: "4835703278458517 / 2 ^ 82 < \<bar>- (1 / 2 ^ 17) :: real\<bar>
               \<and> ((- (1 / 2 ^ 17) :: real) < 0) \<noteq> ((3602879701896397 / 2 ^ 55 :: real) < 0)"
    by simp
  show ?thesis
    by (simp only: FloorMod_value_unfold [OF k p d] cond if_True a) simp
qed


text \<open>
  Claim C6 against the code: at \<^verbatim>\<open>int64_t\<close>, one of the registered types, the kernel returns
  \<open>-5\<close> for \<open>x = 54050795759968184\<close> and \<open>y = 3\<close>: the quotient rounds up to
  \<open>18016931919989396\<close>, its product with \<open>3\<close> rounds up to \<open>54050795759968192\<close>, the
  remainder is \<open>-8\<close>, and adding \<open>y\<close> once leaves a negative number for a positive divisor.
\<close>

theorem FloorMod_int64_sign_differs:
  "\<exists>m'. RunFunc int64_type (InitComputeFunc_real int64_type kFloorMod) (vector_kernel kFloorMod 1) 0 1 2
            (\<lambda>a. if a = 0 then 54050795759968184 else 3) = Some (True, m')
        \<and> sint (m' 2) = - 5"
proof -
  let ?K = "vector_kernel kFloorMod 1"
  let ?m = "\<lambda>a::nat. if a = 0 then 54050795759968184 else (3 :: 64 word)"
  have ro: "reads_outside_output ?K 0 1 2"
    by (simp add: reads_outside_output_def vector_kernel_def)
  have i: "0 < output_size ?K" by (simp add: vector_kernel_def)
  have run: "RunFunc int64_type (InitComputeFunc_real int64_type kFloorMod) ?K 0 1 2 ?m
               = Some (True, FloorMod int64_type ?K 0 1 2 ?m)"
    by (simp add: RunFunc_def init_FloorMod) (simp add: vector_kernel_def name_FloorMod)
  have "FloorMod int64_type ?K 0 1 2 ?m (2 + 0)
          = t_of_double int64_type (FloorMod_value (t_to_double int64_type 54050795759968184)
                                                    (t_to_double int64_type 3))"
    using FloorMod_cells [OF ro i, of int64_type ?m] by (simp add: vector_kernel_def)
  then have "sint (FloorMod int64_type ?K 0 1 2 ?m 2) = - 5"
    by (simp only: int64_to_double_large FloorMod_value_large int64_of_double_m5 add_0_right)
  then show ?thesis using run by blast
qed

text \<open>
  Claim C6, amended. For every element type the kernel stores, at each position, the
  double value \<open>FloorMod_value\<close> of the two inputs converted to \<^verbatim>\<open>double\<close>, converted back to
  the type: that value is \<open>res = x - floor(x / y) * y\<close> with every operation rounded to
  \<^verbatim>\<open>double\<close>, plus \<open>y\<close> when \<open>res\<close> exceeds \<open>1e-9\<close> in magnitude and its sign disagrees with
  the sign of \<open>y\<close>. For finite \<open>x\<close> and \<open>y\<close> with a quotient of at most \<open>2 ^ 51\<close> in
  magnitude (\<open>y\<close> between \<open>2 ^ -1000\<close> and \<open>2 ^ 1000\<close> and \<open>x\<close> at most \<open>2 ^ 1000\<close> in magnitude,
  as is every value of the registered types) the double value is negative exactly when
  \<open>y\<close> is, or it is no larger in magnitude than the double nearest to \<open>1e-9\<close>. For integers
  below \<open>2 ^ 52\<close> in magnitude it is the floor modulus \<open>x mod y\<close>; so the kernel at
  \<^verbatim>\<open>int32_t\<close> returns \<open>x mod y\<close> for every \<open>x\<close> and every \<open>y \<noteq> 0\<close>, smaller than \<open>y\<close> in magnitude and
  zero or of the sign of \<open>y\<close>. In particular \<open>FloorMod(-7, 3) = 2\<close> and
  \<open>FloorMod(7, -3) = -2\<close>.
\<close>

theorem FloorMod_sign_of_divisor:
  assumes ro: "reads_outside_output this input1 input2 out" and name: "kernel_name this = kFloorMod"
  shows "(\<exists>m'. RunFunc T (InitComputeFunc_real T (kernel_name this)) this input1 input2 out m = Some (True, m') \<and>
              (\<forall>i<output_size this.
                 m' (out + i) = t_of_double T (FloorMod_value
                    (t_to_double T (m (input1 + GetInputPosA (base_iter this) i)))
                    (t_to_double T (m (input2 + GetInputPosB (base_iter this) i))))))
         \<and> (\<forall>x y :: real.
                1 / 2 ^ 1000 \<le> \<bar>y\<bar> \<and> \<bar>y\<bar> \<le> 2 ^ 1000 \<and> \<bar>x\<bar> \<le> 2 ^ 1000 \<and> \<bar>x\<bar> \<le> 2 ^ 51 * \<bar>y\<bar> \<longrightarrow>
                (\<exists>r. FloorMod_value (Fin x) (Fin y) = Fin r \<and>
                     ((r < 0) = (y < 0) \<or> \<bar>r\<bar> \<le> 4835703278458517 / 2 ^ 82)))
         \<and> (\<forall>x y :: int. y \<noteq> 0 \<and> \<bar>x\<bar> < 2 ^ 52 \<and> \<bar>y\<bar> < 2 ^ 52 \<longrightarrow>
                FloorMod_value (Fin (real_of_int x)) (Fin (real_of_int y)) = Fin (real_of_int (x mod y)))
         \<and> (\<exists>m'. RunFunc int32_type (InitComputeFunc_real int32_type (kernel_name this)) this input1 input2 out mi
                 = Some (True, m') \<and>
              (\<forall>i<output_size this.
                 let x = sint (mi (input1 + GetInputPosA (base_iter this) i));
                     y = sint (mi (input2 + GetInputPosB (base_iter this) i));
                     r = sint (m' (out + i))
                 in y \<noteq> 0 \<longrightarrow> r = x mod y \<and> \<bar>r\<bar> < \<bar>y\<bar> \<and> (r = 0 \<or> (r < 0) = (y < 0))))
         \<and> FloorMod_value (Fin (- 7)) (Fin 3) = Fin 2
         \<and> FloorMod_value (Fin 7) (Fin (- 3)) = Fin (- 2)"
proof -
  have e1: "FloorMod_value (Fin (- 7)) (Fin 3) = Fin 2"
    using FloorMod_value_int [of 3 "- 7"] by simp
  have e2: "FloorMod_value (Fin 7) (Fin (- 3)) = Fin (- 2)"
    using FloorMod_value_int [of "- 3" 7] by simp
  have g: "\<forall>x y :: real.
                1 / 2 ^ 1000 \<le> \<bar>y\<bar> \<and> \<bar>y\<bar> \<le> 2 ^ 1000 \<and> \<bar>x\<bar> \<le> 2 ^ 1000 \<and> \<bar>x\<bar> \<le> 2 ^ 51 * \<bar>y\<bar> \<longrightarrow>
                (\<exists>r. FloorMod_value (Fin x) (Fin y) = Fin r \<and>
                     ((r < 0) = (y < 0) \<or> \<bar>r\<bar> \<le> 4835703278458517 / 2 ^ 82))"
    using FloorMod_value_sign by blast
  have i: "\<forall>x y :: int. y \<noteq> 0 \<and> \<bar>x\<bar> < 2 ^ 52 \<and> \<bar>y\<bar> < 2 ^ 52 \<longrightarrow>
                FloorMod_value (Fin (real_of_int x)) (Fin (real_of_int y)) = Fin (real_of_int (x mod y))"
    using FloorMod_value_int by blast
  show ?thesis
    using FloorMod_kernel [OF ro name, of T m] g i FloorMod_int32_cells [OF ro name, of mi] e1 e2
    by (intro conjI) assumption+
qed

theorem FloorMod_sign_of_divisor_witness:
  "reads_outside_output (vector_kernel kFloorMod 2) 0 2 4 \<and>
   kernel_name (vector_kernel kFloorMod 2) = kFloorMod \<and>
   (\<exists>m'. RunFunc int32_type (InitComputeFunc_real int32_type kFloorMod) (vector_kernel kFloorMod 2) 0 2 4
             (\<lambda>a. if a = 0 then - 7 else if a = 1 then 7 else if a = 2 then 3 else - 3) = Some (True, m') \<and>
          sint (m' 4) = 2 \<and> sint (m' 5) = - 2) \<and>
   (\<exists>r. FloorMod_value (Fin (- 7)) (Fin 3) = Fin r \<and> ((r < 0) = ((3::real) < 0) \<or> \<bar>r\<bar> \<le> 4835703278458517 / 2 ^ 82))"
proof -
  let ?K = "vector_kernel kFloorMod 2"
  let ?m = "\<lambda>a::nat. if a = 0 then - 7 else if a = 1 then 7 else if a = 2 then 3 else (- 3 :: 32 word)"
  have ro: "reads_outside_output ?K 0 2 4"
    by (simp add: reads_outside_output_def vector_kernel_def)
  have name: "kernel_name ?K = kFloorMod"
    by (simp add: vector_kernel_def)
  note inst = FloorMod_sign_of_divisor [OF ro name, of int32_type ?m ?m]
  from inst obtain m' where run: "RunFunc int32_type (InitComputeFunc_real int32_type (kernel_name ?K)) ?K 0 2 4 ?m = Some (True, m')"
    and cells: "\<forall>i<output_size ?K.
                 let x = sint (?m (0 + GetInputPosA (base_iter ?K) i));
                     y = sint (?m (2 + GetInputPosB (base_iter ?K) i));
                     r = sint (m' (4 + i))
                 in y \<noteq> 0 \<longrightarrow> r = x mod y \<and> \<bar>r\<bar> < \<bar>y\<bar> \<and> (r = 0 \<or> (r < 0) = (y < 0))"
    by blast
  from inst have g: "\<forall>x y :: real.
                1 / 2 ^ 1000 \<le> \<bar>y\<bar> \<and> \<bar>y\<bar> \<le> 2 ^ 1000 \<and> \<bar>x\<bar> \<le> 2 ^ 1000 \<and> \<bar>x\<bar> \<le> 2 ^ 51 * \<bar>y\<bar> \<longrightarrow>
                (\<exists>r. FloorMod_value (Fin x) (Fin y) = Fin r \<and>
                     ((r < 0) = (y < 0) \<or> \<bar>r\<bar> \<le> 4835703278458517 / 2 ^ 82))"
    by blast
  have rng: "1 / 2 ^ 1000 \<le> \<bar>3::real\<bar> \<and> \<bar>3::real\<bar> \<le> 2 ^ 1000 \<and> \<bar>- 7::real\<bar> \<le> 2 ^ 1000 \<and> \<bar>- 7::real\<bar> \<le> 2 ^ 51 * \<bar>3\<bar>"
    by simp
  have v: "\<exists>r. FloorMod_value (Fin (- 7)) (Fin 3) = Fin r \<and> ((r < 0) = ((3::real) < 0) \<or> \<bar>r\<bar> \<le> 4835703278458517 / 2 ^ 82)"
    using g [rule_format, OF rng] .
  have "sint (m' (4 + 0)) = 2" using cells [rule_format, of 0] by (simp add: vector_kernel_def Let_def)
  moreover have "sint (m' (4 + 1)) = - 2" using cells [rule_format, of 1] by (simp add: vector_kernel_def Let_def)
  ultimately show ?thesis using ro name run v by (simp add: name)
qed

section \<open>Median inference\<close>

lemma Median_loop_prefix:
  assumes a: "a < length xs"
  shows "k \<le> length xs \<Longrightarrow>
         for_loop 0 k (\<lambda>i out. if i = a then (if keep then out @ [1] else out)
                                else out @ [xs ! i]) []
         = (if k \<le> a then take k xs
            else take a xs @ (if keep then [1] else []) @ take (k - Suc a) (drop (Suc a) xs))"
proof (induction k)
  case 0
  then show ?case by (simp add: for_loop_0)
next
  case (Suc k)
  then have kl: "k < length xs" and IH: "for_loop 0 k (\<lambda>i out. if i = a then (if keep then out @ [1] else out)
                                else out @ [xs ! i]) []
         = (if k \<le> a then take k xs
            else take a xs @ (if keep then [1] else []) @ take (k - Suc a) (drop (Suc a) xs))"
    by simp_all
  consider (lt) "k < a" | (eq) "k = a" | (gt) "a < k" by linarith
  then show ?case
  proof cases
    case lt
    then show ?thesis using kl IH by (simp add: for_loop_Suc take_Suc_conv_app_nth)
  next
    case eq
    then show ?thesis using IH by (simp add: for_loop_Suc)
  next
    case gt
    then have d: "k - Suc a < length (drop (Suc a) xs)" using kl by simp
    have "Suc k - Suc a = Suc (k - Suc a)" using gt by simp
    moreover have "drop (Suc a) xs ! (k - Suc a) = xs ! k" using gt kl by simp
    ultimately have "take (Suc k - Suc a) (drop (Suc a) xs) = take (k - Suc a) (drop (Suc a) xs) @ [xs ! k]"
      using take_Suc_conv_app_nth [OF d] by simp
    then show ?thesis using gt IH by (simp add: for_loop_Suc)
  qed
qed

lemma Median_loop:
  assumes a: "a < length xs"
  shows "for_loop 0 (length xs) (\<lambda>i out. if i = a then (if keep then out @ [1] else out)
                                else out @ [xs ! i]) []
         = take a xs @ (if keep then [1] else []) @ drop (Suc a) xs"
  using Median_loop_prefix [OF a, of "length xs" keep] a by simp

text \<open>
  Claim C9: with \<open>global_median\<close> false, \<^verbatim>\<open>MedianInferShape\<close> accepts an \<open>axis\<close> in
  \<open>[-rank, rank)\<close> (in \<open>[-1, 1)\<close> for a rank-0 input) and raises otherwise; on success both
  output shapes are the input shape with that axis removed, or kept with size 1 when
  \<open>keep_dims\<close> is set (a rank-0 input gives the empty shape). \<^verbatim>\<open>MedianInferType\<close> returns the
  pair of the input's tensor type and a tensor of \<open>Int64\<close>, for an input of a valid element
  type.
\<close>

theorem Median_infer:
  assumes g: "attr_global_median p = Some False"
      and ax: "attr_axis p = Some axis"
      and kd: "attr_keep_dims p = Some keep"
  shows "MedianInferShape p (Some x # rest) =
          (if shape x = []
           then (if -1 \<le> axis \<and> axis < 1 then Inr [[], []] else Inl ValueError)
           else if - int (length (shape x)) \<le> axis \<and> axis < int (length (shape x))
                then (let a = nat (if axis < 0 then axis + int (length (shape x)) else axis);
                          out = take a (shape x) @ (if keep then [1] else []) @ drop (Suc a) (shape x)
                      in Inr [out, out])
                else Inl ValueError) \<and>
         MedianInferType p [Some x] =
          (if element x \<in> set valid_types
           then Inr (Tuple [TensorType (element x), TensorType kInt64])
           else Inl TypeError)"
proof
  show "MedianInferShape p (Some x # rest) =
          (if shape x = []
           then (if -1 \<le> axis \<and> axis < 1 then Inr [[], []] else Inl ValueError)
           else if - int (length (shape x)) \<le> axis \<and> axis < int (length (shape x))
                then (let a = nat (if axis < 0 then axis + int (length (shape x)) else axis);
                          out = take a (shape x) @ (if keep then [1] else []) @ drop (Suc a) (shape x)
                      in Inr [out, out])
                else Inl ValueError)"
  proof (cases "shape x = []")
    case True
    then show ?thesis
      by (simp add: MedianInferShape_def first_arg_def bind_result_def GetValue_def g ax kd
            CheckInRange_def for_loop_0)
  next
    case False
    let ?n = "length (shape x)"
    show ?thesis
    proof (cases "- int ?n \<le> axis \<and> axis < int ?n")
      case outside: False
      then have chk: "CheckInRange axis kIncludeLeft (- int ?n, int ?n) = Inl ValueError"
        by (simp add: CheckInRange_def)
      have "MedianInferShape p (Some x # rest) = Inl ValueError"
        using False
        by (simp add: MedianInferShape_def first_arg_def bind_result_def GetValue_def g ax kd
              chk Let_def)
      then show ?thesis by (simp only: False outside if_False)
    next
      case inside: True
      define a where "a = nat (if axis < 0 then axis + int ?n else axis)"
      have a_lt: "a < ?n" using inside unfolding a_def by (cases "axis < 0") auto
      have a_int: "(if axis < 0 then axis + int ?n else axis) = int a"
        using inside unfolding a_def by (cases "axis < 0") auto
      have loop: "for_loop 0 ?n (\<lambda>i out. if int i = (if axis < 0 then axis + int ?n else axis)
                                         then (if keep then out @ [1] else out)
                                         else out @ [shape x ! i]) []
                  = take a (shape x) @ (if keep then [1] else []) @ drop (Suc a) (shape x)"
        unfolding a_int using Median_loop [OF a_lt, of keep] by simp
      have chk: "CheckInRange axis kIncludeLeft (- int ?n, int ?n) = Inr ()"
        using inside by (simp add: CheckInRange_def)
      have "MedianInferShape p (Some x # rest) =
              Inr [take a (shape x) @ (if keep then [1] else []) @ drop (Suc a) (shape x),
                   take a (shape x) @ (if keep then [1] else []) @ drop (Suc a) (shape x)]"
        using False
        by (simp add: MedianInferShape_def first_arg_def bind_result_def GetValue_def g ax kd
              chk Let_def loop)
      then show ?thesis using False inside by (simp add: Let_def a_def)
    qed
  qed
next
  show "MedianInferType p [Some x] =
          (if element x \<in> set valid_types
           then Inr (Tuple [TensorType (element x), TensorType kInt64])
           else Inl TypeError)"
    by (simp add: MedianInferType_def first_arg_def bind_result_def CheckTensorTypeValid_def BuildType_def)
qed

theorem Median_infer_witness:
  "MedianInferShape \<lparr> attr_global_median = Some False, attr_axis = Some 1, attr_keep_dims = Some False \<rparr>
     [Some \<lparr> element = kFloat32, shape = [2, 3, 4] \<rparr>] = Inr [[2, 4], [2, 4]] \<and>
   MedianInferShape \<lparr> attr_global_median = Some False, attr_axis = Some 1, attr_keep_dims = Some True \<rparr>
     [Some \<lparr> element = kFloat32, shape = [2, 3, 4] \<rparr>] = Inr [[2, 1, 4], [2, 1, 4]] \<and>
   MedianInferShape \<lparr> attr_global_median = Some False, attr_axis = Some 3, attr_keep_dims = Some False \<rparr>
     [Some \<lparr> element = kFloat32, shape = [2, 3, 4] \<rparr>] = Inl ValueError \<and>
   MedianInferShape \<lparr> attr_global_median = Some False, attr_axis = Some (- 4), attr_keep_dims = Some False \<rparr>
     [Some \<lparr> element = kFloat32, shape = [2, 3, 4] \<rparr>] = Inl ValueError \<and>
   MedianInferShape \<lparr> attr_global_median = Some False, attr_axis = Some (- 1), attr_keep_dims = Some True \<rparr>
     [Some \<lparr> element = kFloat32, shape = [] \<rparr>] = Inr [[], []] \<and>
   MedianInferType \<lparr> attr_global_median = Some False, attr_axis = Some 1, attr_keep_dims = Some False \<rparr>
     [Some \<lparr> element = kFloat32, shape = [2, 3, 4] \<rparr>] = Inr (Tuple [TensorType kFloat32, TensorType kInt64])"
  using
    Median_infer [of "\<lparr> attr_global_median = Some False, attr_axis = Some 1, attr_keep_dims = Some False \<rparr>"
      1 False "\<lparr> element = kFloat32, shape = [2, 3, 4] \<rparr>" "[]"]
    Median_infer [of "\<lparr> attr_global_median = Some False, attr_axis = Some 1, attr_keep_dims = Some True \<rparr>"
      1 True "\<lparr> element = kFloat32, shape = [2, 3, 4] \<rparr>" "[]"]
    Median_infer [of "\<lparr> attr_global_median = Some False, attr_axis = Some 3, attr_keep_dims = Some False \<rparr>"
      3 False "\<lparr> element = kFloat32, shape = [2, 3, 4] \<rparr>" "[]"]
    Median_infer [of "\<lparr> attr_global_median = Some False, attr_axis = Some (- 4), attr_keep_dims = Some False \<rparr>"
      "- 4" False "\<lparr> element = kFloat32, shape = [2, 3, 4] \<rparr>" "[]"]
    Median_infer [of "\<lparr> attr_global_median = Some False, attr_axis = Some (- 1), attr_keep_dims = Some True \<rparr>"
      "- 1" True "\<lparr> element = kFloat32, shape = [] \<rparr>" "[]"]
  by (simp add: valid_types_def Let_def)

section \<open>Sparse tensor constructors\<close>

lemma COO_success:
  assumes "InferImplMakeCOOTensor indices values dense_shape = Inr r"
  shows "length (shape indices) = 2 \<and> shape indices ! 1 = 2 \<and> shape indices ! 0 = shape values ! 0
         \<and> length (shape values) = 1 \<and> r = AbstractCOOTensor indices values dense_shape"
  using assms
  by (simp add: InferImplMakeCOOTensor_def bind_result_def CheckSparseIndicesDtype_def CheckSparseShape_def
        Let_def split: if_splits option.splits)

lemma COO_error_kind:
  assumes "\<not> (length (shape indices) = 2 \<and> shape indices ! 1 = 2 \<and> shape indices ! 0 = shape values ! 0)"
  shows "InferImplMakeCOOTensor indices values dense_shape = Inl TypeError \<or>
         InferImplMakeCOOTensor indices values dense_shape = Inl ValueError"
  using assms
  by (auto simp add: InferImplMakeCOOTensor_def bind_result_def CheckSparseIndicesDtype_def CheckSparseShape_def
        Let_def)

lemma CSR_success:
  assumes "InferImplMakeCSRTensor indptr indices values shape_arg = Inr r"
  shows "length (shape indptr) = 1 \<and> length (shape indices) = 1 \<and>
         (\<exists>shape_vec. tuple_value shape_arg = Some shape_vec \<and> shape indptr ! 0 = shape_vec ! 0 + 1)
         \<and> r = AbstractCSRTensor indptr indices values shape_arg"
  using assms
  by (simp add: InferImplMakeCSRTensor_def bind_result_def CheckSparseIndicesDtype_def CheckSparseShape_def
        at_index_def Let_def split: if_splits option.splits sum.splits)

lemma CSR_rank_error_kind:
  assumes "length (shape indptr) \<noteq> 1 \<or> length (shape indices) \<noteq> 1"
  shows "InferImplMakeCSRTensor indptr indices values shape_arg = Inl TypeError \<or>
         InferImplMakeCSRTensor indptr indices values shape_arg = Inl ValueError"
  using assms
  by (auto simp add: InferImplMakeCSRTensor_def bind_result_def CheckSparseIndicesDtype_def CheckSparseShape_def
        Let_def)

lemma CSR_indptr_error_kind:
  assumes "tuple_value shape_arg = Some shape_vec" and "shape values \<noteq> []"
      and "shape indptr ! 0 \<noteq> shape_vec ! 0 + 1"
  shows "InferImplMakeCSRTensor indptr indices values shape_arg = Inl TypeError \<or>
         InferImplMakeCSRTensor indptr indices values shape_arg = Inl ValueError"
  using assms
  by (auto simp add: InferImplMakeCSRTensor_def bind_result_def CheckSparseIndicesDtype_def CheckSparseShape_def
        at_index_def Let_def)

text \<open>
  The parts of claim C8 that the code fulfils. \<^verbatim>\<open>InferImplMakeCOOTensor\<close> returns a COO
  tensor only when the indices have rank 2, second dimension 2 and the leading dimension
  of the values, and raises a \<^verbatim>\<open>TypeError\<close> or a \<^verbatim>\<open>ValueError\<close> whenever one of the three
  fails. \<^verbatim>\<open>InferImplMakeCSRTensor\<close> returns a CSR tensor only when \<open>indptr\<close> and \<open>indices\<close>
  have rank 1 and the length of \<open>indptr\<close> is \<open>shape[0] + 1\<close>; it raises a \<^verbatim>\<open>TypeError\<close> or a
  \<^verbatim>\<open>ValueError\<close> when a rank is wrong, and also when the length of \<open>indptr\<close> is wrong for a
  constant shape tuple and values of rank at least 1.
\<close>

lemma sparse_constructor_checks:
  "(InferImplMakeCOOTensor indices values dense_shape = Inr r \<longrightarrow>
      length (shape indices) = 2 \<and> shape indices ! 1 = 2 \<and> shape indices ! 0 = shape values ! 0) \<and>
   (\<not> (length (shape indices) = 2 \<and> shape indices ! 1 = 2 \<and> shape indices ! 0 = shape values ! 0) \<longrightarrow>
      InferImplMakeCOOTensor indices values dense_shape = Inl TypeError \<or>
      InferImplMakeCOOTensor indices values dense_shape = Inl ValueError) \<and>
   (InferImplMakeCSRTensor indptr csr_indices csr_values shape_arg = Inr r' \<longrightarrow>
      length (shape indptr) = 1 \<and> length (shape csr_indices) = 1 \<and>
      (\<exists>shape_vec. tuple_value shape_arg = Some shape_vec \<and> shape indptr ! 0 = shape_vec ! 0 + 1)) \<and>
   (length (shape indptr) \<noteq> 1 \<or> length (shape csr_indices) \<noteq> 1 \<longrightarrow>
      InferImplMakeCSRTensor indptr csr_indices csr_values shape_arg = Inl TypeError \<or>
      InferImplMakeCSRTensor indptr csr_indices csr_values shape_arg = Inl ValueError) \<and>
   (tuple_value shape_arg = Some shape_vec \<and> shape csr_values \<noteq> [] \<and>
    shape indptr ! 0 \<noteq> shape_vec ! 0 + 1 \<longrightarrow>
      InferImplMakeCSRTensor indptr csr_indices csr_values shape_arg = Inl TypeError \<or>
      InferImplMakeCSRTensor indptr csr_indices csr_values shape_arg = Inl ValueError)"
proof (intro conjI impI)
  assume "InferImplMakeCOOTensor indices values dense_shape = Inr r"
  from COO_success [OF this]
  show "length (shape indices) = 2" "shape indices ! 1 = 2" "shape indices ! 0 = shape values ! 0"
    by simp_all
next
  assume "\<not> (length (shape indices) = 2 \<and> shape indices ! 1 = 2 \<and> shape indices ! 0 = shape values ! 0)"
  then show "InferImplMakeCOOTensor indices values dense_shape = Inl TypeError \<or>
      InferImplMakeCOOTensor indices values dense_shape = Inl ValueError"
    by (rule COO_error_kind)
next
  assume a: "InferImplMakeCSRTensor indptr csr_indices csr_values shape_arg = Inr r'"
  from CSR_success [OF a]
  show "length (shape indptr) = 1" "length (shape csr_indices) = 1"
    "\<exists>shape_vec. tuple_value shape_arg = Some shape_vec \<and> shape indptr ! 0 = shape_vec ! 0 + 1"
    by simp_all
next
  assume "length (shape indptr) \<noteq> 1 \<or> length (shape csr_indices) \<noteq> 1"
  then show "InferImplMakeCSRTensor indptr csr_indices csr_values shape_arg = Inl TypeError \<or>
      InferImplMakeCSRTensor indptr csr_indices csr_values shape_arg = Inl ValueError"
    by (rule CSR_rank_error_kind)
next
  assume "tuple_value shape_arg = Some shape_vec \<and> shape csr_values \<noteq> [] \<and>
    shape indptr ! 0 \<noteq> shape_vec ! 0 + 1"
  then show "InferImplMakeCSRTensor indptr csr_indices csr_values shape_arg = Inl TypeError \<or>
      InferImplMakeCSRTensor indptr csr_indices csr_values shape_arg = Inl ValueError"
    using CSR_indptr_error_kind by blast
qed


lemma COO_example_ok:
  "InferImplMakeCOOTensor \<lparr> element = kInt32, shape = [5, 2] \<rparr> \<lparr> element = kFloat32, shape = [5] \<rparr>
     \<lparr> ElementsType = [kInt64, kInt64], tuple_value = Some [4, 4] \<rparr>
   = Inr (AbstractCOOTensor \<lparr> element = kInt32, shape = [5, 2] \<rparr> \<lparr> element = kFloat32, shape = [5] \<rparr>
            \<lparr> ElementsType = [kInt64, kInt64], tuple_value = Some [4, 4] \<rparr>)"
  by (simp add: InferImplMakeCOOTensor_def bind_result_def CheckSparseIndicesDtype_def CheckSparseShape_def
        isa_Int_def Let_def)

lemma CSR_example_ok:
  "InferImplMakeCSRTensor \<lparr> element = kInt32, shape = [4] \<rparr> \<lparr> element = kInt32, shape = [6] \<rparr>
     \<lparr> element = kFloat32, shape = [6] \<rparr> \<lparr> ElementsType = [kInt64, kInt64], tuple_value = Some [3, 5] \<rparr>
   = Inr (AbstractCSRTensor \<lparr> element = kInt32, shape = [4] \<rparr> \<lparr> element = kInt32, shape = [6] \<rparr>
     \<lparr> element = kFloat32, shape = [6] \<rparr> \<lparr> ElementsType = [kInt64, kInt64], tuple_value = Some [3, 5] \<rparr>)"
  by (simp add: InferImplMakeCSRTensor_def bind_result_def CheckSparseIndicesDtype_def CheckSparseShape_def
        at_index_def isa_Int_def Let_def upt_rec [of 0] upt_rec [of 1] upt_rec [of 2])

lemma COO_rank0_values:
  "InferImplMakeCOOTensor \<lparr> element = kInt32, shape = [5, 2] \<rparr> \<lparr> element = kFloat32, shape = [] \<rparr>
     \<lparr> ElementsType = [kInt64, kInt64], tuple_value = Some [4, 4] \<rparr> = Inl ValueError"
  by (simp add: InferImplMakeCOOTensor_def bind_result_def CheckSparseIndicesDtype_def CheckSparseShape_def
        Let_def)

text \<open>
  Claim C8 against the code: \<^verbatim>\<open>InferImplMakeCSRTensor\<close> reads \<^verbatim>\<open>values_shp[0]\<close> before any
  check of the rank of the values (\<^verbatim>\<open>InferImplMakeCOOTensor\<close> checks that rank with
  \<^verbatim>\<open>CheckSparseShape\<close> first). For values of rank 0 the read is outside the vector:
  whatever the shape tuple and the length of \<open>indptr\<close>, also one that is not
  \<open>shape[0] + 1\<close>, the call ends in undefined behaviour and not in a \<^verbatim>\<open>TypeError\<close> or a
  \<^verbatim>\<open>ValueError\<close>.
\<close>

theorem MakeCSRTensor_rank0_values_undefined:
  assumes "CheckSparseIndicesDtype (element indptr) = Inr ()"
      and "CheckSparseIndicesDtype (element csr_indices) = Inr ()"
      and "length (shape indptr) = 1" and "length (shape csr_indices) = 1"
      and "shape csr_values = []"
  shows "InferImplMakeCSRTensor indptr csr_indices csr_values shape_arg = Inl UndefinedBehaviour"
  using assms
  by (simp add: InferImplMakeCSRTensor_def bind_result_def CheckSparseShape_def at_index_def Let_def)

theorem MakeCSRTensor_rank0_values_undefined_witness:
  "CheckSparseIndicesDtype (element \<lparr> element = kInt32, shape = [5] \<rparr>) = Inr () \<and>
   CheckSparseIndicesDtype (element \<lparr> element = kInt32, shape = [6] \<rparr>) = Inr () \<and>
   length (shape \<lparr> element = kInt32, shape = [5] \<rparr>) = 1 \<and>
   length (shape \<lparr> element = kInt32, shape = [6] \<rparr>) = 1 \<and>
   shape \<lparr> element = kFloat32, shape = [] \<rparr> = [] \<and>
   shape \<lparr> element = kInt32, shape = [5] \<rparr> ! 0 \<noteq> [3, 5] ! 0 + 1 \<and>
   InferImplMakeCSRTensor \<lparr> element = kInt32, shape = [5] \<rparr> \<lparr> element = kInt32, shape = [6] \<rparr>
     \<lparr> element = kFloat32, shape = [] \<rparr> \<lparr> ElementsType = [kInt64, kInt64], tuple_value = Some [3, 5] \<rparr>
   = Inl UndefinedBehaviour"
  using MakeCSRTensor_rank0_values_undefined
          [of "\<lparr> element = kInt32, shape = [5] \<rparr>" "\<lparr> element = kInt32, shape = [6] \<rparr>"
              "\<lparr> element = kFloat32, shape = [] \<rparr>"
              "\<lparr> ElementsType = [kInt64, kInt64], tuple_value = Some [3, 5] \<rparr>"]
  by (simp add: CheckSparseIndicesDtype_def)

section \<open>Linear sum assignment\<close>

text \<open>Integers below \<open>2 ^ 53\<close> are binary64 numbers: the operations of the solver on them are
  exact.\<close>

lemma round_to_format_Ints:
  assumes "x \<in> \<int>" "\<bar>x\<bar> < 2 ^ 53"
  shows "round_to_format binary64 x = Fin x"
proof -
  from assms(1) obtain n where n: "x = real_of_int n" by (auto elim: Ints_cases)
  have "real_of_int \<bar>n\<bar> < real_of_int (2 ^ 53)" using assms(2) n by simp
  then have "\<bar>n\<bar> < 2 ^ 53" by (simp only: of_int_less_iff)
  from round_to_format_int [OF this] show ?thesis by (simp add: n)
qed

lemmas lsa_defs = Solve_def LaunchKernel_def check_value_def loop_range_def initial_state_def vec_new_def
  bind_lsa_def vec_at_def vec_at_put_def idx_def idx_put_def AugmentingPath_def AugmentingPath_scan_def
  update_duals_def PostProcess_def ReArrange_def to_int32_def fsub_def isnan_def Let_def
  round_to_format_Ints AugmentPreviousSolution.simps INT64_MAX_def

text \<open>The degenerate problem: nothing is written and the result is success.\<close>

lemma Solve_degenerate:
  assumes "nr = 0 \<or> nc = 0"
  shows "Solve fmt nr nc raw_nc cost maximize a b = Some (Inr (True, a, b))"
  using assms by (simp add: Solve_def)

text \<open>\<^verbatim>\<open>check_value\<close> fails at a NaN and at a negative infinity among the entries it visits.\<close>

lemma check_value_loop_invalid:
  assumes "\<forall>i \<in> set is. 0 \<le> i \<and> i < int (length cost)"
    and "\<exists>i \<in> set is. cost ! nat i = NaN \<or> cost ! nat i = NInf"
  shows "check_value_loop cost is = Inr False"
  using assms
proof (induction "is")
  case Nil
  then show ?case by simp
next
  case (Cons i rest)
  show ?case
  proof (cases "cost ! nat i = NaN \<or> cost ! nat i = NInf")
    case True
    then show ?thesis using Cons.prems(1) by (auto simp: idx_def bind_lsa_def isnan_def)
  next
    case False
    with Cons.prems have "check_value_loop cost rest = Inr False"
      by (intro Cons.IH) auto
    then show ?thesis using Cons.prems(1) by (simp add: idx_def bind_lsa_def)
  qed
qed

lemma check_value_loop_valid:
  assumes "\<forall>i \<in> set is. 0 \<le> i \<and> i < int (length cost)"
    and "\<forall>i \<in> set is. cost ! nat i \<noteq> NaN \<and> cost ! nat i \<noteq> NInf"
  shows "check_value_loop cost is = Inr True"
  using assms
proof (induction "is")
  case Nil
  then show ?case by simp
next
  case (Cons i rest)
  have "\<not> feq (cost ! nat i) NInf" using Cons.prems(2) by (cases "cost ! nat i") simp_all
  then show ?case using Cons by (simp add: idx_def bind_lsa_def isnan_def)
qed

text \<open>Without transposition and without negation, the solver fails on a cost buffer of
  \<open>nr * nc\<close> entries that holds a NaN or a negative infinity, and writes nothing.\<close>

lemma Solve_invalid_entry:
  assumes "0 < nr" and "nr \<le> nc" and "length cost = nat (nr * nc)"
    and "k < length cost" and "cost ! k = NaN \<or> cost ! k = NInf"
  shows "Solve fmt nr nc raw_nc cost False a b = Some (Inr (False, a, b))"
proof -
  have "check_value_loop cost (loop_range (nr * nc)) = Inr False"
  proof (rule check_value_loop_invalid)
    show "\<forall>i \<in> set (loop_range (nr * nc)). 0 \<le> i \<and> i < int (length cost)"
      using assms(3) by (auto simp: loop_range_def)
    have "int k \<in> set (loop_range (nr * nc))"
      using assms(3,4) by (auto simp: loop_range_def)
    then show "\<exists>i \<in> set (loop_range (nr * nc)). cost ! nat i = NaN \<or> cost ! nat i = NInf"
      using assms(5) by (intro bexI [of _ "int k"]) simp_all
  qed
  then show ?thesis using assms(1,2) by (simp add: Solve_def check_value_def)
qed

text \<open>A row without an augmenting path ends the loop over the rows with failure.\<close>

lemma Solve_rows_no_path:
  assumes "AugmentingPath fmt nc cost st cur_row = Inr (sink, p_min_val, st1)" and "sink < 0"
  shows "Solve_rows fmt nr nc cost (cur_row # rest) st = Some (Inr (False, st1))"
  using assms by simp

text \<open>The example of the specification: the result costs 5, and no other assignment of the
  three rows costs less.\<close>

lemma LaunchKernel_example_3x3:
  "LaunchKernel binary64 [3, 3] [Fin 4, Fin 1, Fin 3, Fin 2, Fin 0, Fin 5, Fin 3, Fin 2, Fin 2]
     INT64_MAX False [0, 0, 0] [0, 0, 0] = Some (Inr (True, [0, 1, 2], [1, 0, 2]))"
  by (simp add: lsa_defs upt_rec)

lemma example_3x3_minimal:
  "spec_total_cost [Fin 4, Fin 1, Fin 3, Fin 2, Fin 0, Fin 5, Fin 3, Fin 2, Fin 2] 3
     [0, 1, 2] [1, 0, 2] = 5
   \<and> (\<forall>col_ind \<in> set [[0, 1, 2], [0, 2, 1], [1, 0, 2], [1, 2, 0], [2, 0, 1], [2, 1, 0]].
        5 \<le> spec_total_cost [Fin 4, Fin 1, Fin 3, Fin 2, Fin 0, Fin 5, Fin 3, Fin 2, Fin 2] 3
               [0, 1, 2] col_ind)"
  by (simp add: spec_total_cost_def fval_real_def)

text \<open>The same matrix in binary32.\<close>

lemma LaunchKernel_example_3x3_float:
  "LaunchKernel binary32 [3, 3] [Fin 4, Fin 1, Fin 3, Fin 2, Fin 0, Fin 5, Fin 3, Fin 2, Fin 2]
     INT64_MAX False [0, 0, 0] [0, 0, 0] = Some (Inr (True, [0, 1, 2], [1, 0, 2]))"
  by (simp add: lsa_defs upt_rec round_to_format_def quantum_def ilog2_def bit_length.simps
      round_even_def binary32_def pow2_def max_finite_def)

text \<open>A dimension limit below the number of rows: the problem is transposed, and the slots
  from \<open>min nr nc\<close> up to \<open>element_num\<close> receive the sentinel.\<close>

lemma LaunchKernel_padding:
  "LaunchKernel binary64 [3, 3] [Fin 4, Fin 1, Fin 3, Fin 2, Fin 0, Fin 5, Fin 3, Fin 2, Fin 2]
     2 False [9, 9, 9] [9, 9, 9] = Some (Inr (True, [0, 1, - 1], [1, 0, - 1]))"
  by (simp add: lsa_defs upt_rec)

text \<open>A positive infinity is accepted and forbids its pair; a row of positive infinities has
  no augmenting path, and the solver fails without writing.\<close>

lemma LaunchKernel_infinity_permitted:
  "LaunchKernel binary64 [2, 2] [Fin 1, PInf, Fin 1, Fin 5] INT64_MAX False [0, 0] [0, 0]
     = Some (Inr (True, [0, 1], [0, 1]))"
  by (simp add: lsa_defs upt_rec)

lemma LaunchKernel_no_path:
  "LaunchKernel binary64 [2, 2] [PInf, PInf, Fin 1, Fin 2] INT64_MAX False [7, 7] [8, 8]
     = Some (Inr (False, [7, 7], [8, 8]))"
  by (simp add: lsa_defs upt_rec)

text \<open>With \<open>maximize\<close> the entries are negated before they are checked: a negative infinity
  of the cost matrix is accepted and a positive infinity is refused.\<close>

lemma LaunchKernel_maximize_infinities:
  "LaunchKernel binary64 [2, 2] [NInf, Fin 1, Fin 1, Fin 5] INT64_MAX True [0, 0] [0, 0]
     = Some (Inr (True, [0, 1], [1, 0]))
   \<and> LaunchKernel binary64 [2, 2] [PInf, Fin 1, Fin 1, Fin 5] INT64_MAX True [0, 0] [0, 0]
     = Some (Inr (False, [0, 0], [0, 0]))"
  by (simp add: lsa_defs upt_rec)

text \<open>
  Claim C7 against the code: the solver should fail when an entry of the cost matrix is a
  NaN. \<^verbatim>\<open>ReArrange\<close>, which copies and negates the matrix when \<open>maximize\<close> is set, writes the
  entry \<open>(i, j)\<close> to \<^verbatim>\<open>temp->at(i * nr + j)\<close>, where the stride of a row is \<open>nc\<close>: at 2 rows and
  3 columns the entry \<open>(1, 0)\<close> overwrites the entry \<open>(0, 2)\<close>, and the last slot keeps the zero
  of \<^verbatim>\<open>resize\<close>. A NaN at \<open>(0, 2)\<close> is lost before \<^verbatim>\<open>check_value\<close> runs: the kernel returns
  success, and assigns row 0 to the column 2 of the NaN. The degenerate problem, the failure
  without a path and the check of a matrix that is neither transposed nor negated are as
  claimed (\<open>Solve_degenerate\<close>, \<open>Solve_rows_no_path\<close>, \<open>LaunchKernel_no_path\<close>,
  \<open>Solve_invalid_entry\<close>).
\<close>

theorem LaunchKernel_maximize_NaN_accepted:
  "LaunchKernel binary64 [2, 3] [Fin 1, Fin 2, NaN, Fin 3, Fin 4, Fin 5] INT64_MAX True [0, 0] [0, 0]
     = Some (Inr (True, [0, 1], [2, 1]))"
  by (simp add: lsa_defs upt_rec)

text \<open>
  Claim C1 against the code: the assignment returned should have the least total cost. With
  a dimension limit \<open>nc\<close> below the number of columns \<open>raw_nc\<close> and not below the number of
  rows, \<^verbatim>\<open>Solve\<close> neither transposes nor negates, and \<^verbatim>\<open>AugmentingPath\<close> reads the entry
  \<open>(i, j)\<close> at \<^verbatim>\<open>cost[i * nc + j]\<close> in the buffer of the caller, whose rows have the stride
  \<open>raw_nc\<close> (the stride \<^verbatim>\<open>ReArrange\<close> reads with). For the matrix \<open>[[5, 1, 0], [9, 0, 0]]\<close> and
  the limit 2 the kernel solves \<open>[[5, 1], [0, 9]]\<close> in place of \<open>[[5, 1], [9, 0]]\<close>: it returns
  the pairs \<open>(0, 1)\<close> and \<open>(1, 0)\<close>, of total cost 10, where the pairs \<open>(0, 0)\<close> and \<open>(1, 1)\<close>
  cost 5. The example of the specification and the padding with the sentinel are as claimed
  (\<open>LaunchKernel_example_3x3\<close>, \<open>example_3x3_minimal\<close>, \<open>LaunchKernel_padding\<close>).
\<close>

theorem LaunchKernel_dimension_limit_not_minimal:
  "LaunchKernel binary64 [2, 3] [Fin 5, Fin 1, Fin 0, Fin 9, Fin 0, Fin 0] 2 False [0, 0] [0, 0]
     = Some (Inr (True, [0, 1], [1, 0]))
   \<and> spec_total_cost [Fin 5, Fin 1, Fin 0, Fin 9, Fin 0, Fin 0] 3 [0, 1] [1, 0] = 10
   \<and> spec_total_cost [Fin 5, Fin 1, Fin 0, Fin 9, Fin 0, Fin 0] 3 [0, 1] [0, 1] = 5"
  by (simp add: lsa_defs upt_rec spec_total_cost_def fval_real_def)

end
